theory Spec2Isabelle
  imports Complex_Main "HOL-Library.Word"
begin

chapter \<open>Engine discovery, connection and relay of nvim-strudel\<close>

text \<open>
  The first part of this theory embeds the code: the state file through which the engine
  announces its port (\<open>readEngineState\<close>, \<open>writeEngineState\<close>, \<open>pollEngineState\<close>),
  the language server's TCP client (\<open>tryConnect\<close> and the handlers of its sockets, with
  the watcher's handler of \<open>connectToEngine\<close>), the relay of events to SuperDirt
  (\<open>hapToOscArgs\<close>, \<open>sendHapToSuperDirt\<close>) and the \<open>on_stdout\<close> handler of
  \<open>M.start_server\<close>. The second part states and proves the properties.

  Exceptions are values (\<open>Inl\<close>), a \<open>try ... catch\<close> is a case distinction on them.
  What belongs to the platform and not to the code (\<open>JSON.parse\<close>, \<open>JSON.stringify\<close>,
  the arithmetic of numbers, \<open>isNote\<close>, \<open>noteToMidi\<close>, \<open>udpPort.send\<close>) is a
  parameter of the functions that use it; the examples fix these parameters to tables of
  the values they have on the inputs used.
\<close>

section \<open>JavaScript values read from a JSON text\<close>

text \<open>
  The value \<open>JSON.parse\<close> returns. A number is taken at its mathematical value (every
  finite double is a rational; \<open>-0\<close> and \<open>0\<close> are the same value, as they are for
  \<open>===\<close> and for truthiness). An object is the list of its own properties.
\<close>

datatype json =
    JNull
  | JBool bool
  | JNum rat
  | JStr string
  | JArr "json list"
  | JObj "(string \<times> json) list"

text \<open>The result of reading a property: \<open>undefined\<close>, or a value.\<close>

datatype jsval = Undefined | Val json

datatype fs_error = ENOENT | EISDIR | EACCES | EEXIST

datatype js_error = TypeError | SyntaxError | RangeError | OtherError | FsError fs_error

text \<open>
  \<open>v.k\<close> for a key \<open>k\<close> that no prototype defines (\<open>pid\<close>, \<open>port\<close>,
  \<open>timestamp\<close>): reading a property of \<open>null\<close> throws a TypeError, an object
  gives its own property, every other value gives \<open>undefined\<close>.
\<close>

fun get_prop :: "json \<Rightarrow> string \<Rightarrow> js_error + jsval" where
  "get_prop JNull k = Inl TypeError"
| "get_prop (JObj kvs) k = Inr (case map_of kvs k of None \<Rightarrow> Undefined | Some v \<Rightarrow> Val v)"
| "get_prop v k = Inr Undefined"

text \<open>JavaScript truthiness (\<open>!x\<close> is its negation).\<close>

fun truthy :: "jsval \<Rightarrow> bool" where
  "truthy Undefined = False"
| "truthy (Val JNull) = False"
| "truthy (Val (JBool b)) = b"
| "truthy (Val (JNum n)) = (n \<noteq> 0)"
| "truthy (Val (JStr s)) = (s \<noteq> [])"
| "truthy (Val (JArr xs)) = True"
| "truthy (Val (JObj kvs)) = True"

text \<open>\<open>typeof x === 'number'\<close>.\<close>

fun is_number :: "jsval \<Rightarrow> bool" where
  "is_number (Val (JNum n)) = True"
| "is_number v = False"

text \<open>
  \<open>a === b\<close> between a value kept from an earlier \<open>JSON.parse\<close> and a value of a
  later one: primitives compare by value, two arrays or objects are never the same
  reference.
\<close>

fun strict_eq :: "jsval \<Rightarrow> jsval \<Rightarrow> bool" where
  "strict_eq Undefined Undefined = True"
| "strict_eq (Val JNull) (Val JNull) = True"
| "strict_eq (Val (JBool a)) (Val (JBool b)) = (a = b)"
| "strict_eq (Val (JNum a)) (Val (JNum b)) = (a = b)"
| "strict_eq (Val (JStr a)) (Val (JStr b)) = (a = b)"
| "strict_eq a b = False"


section \<open>The state file (engine-state)\<close>

subsection \<open>The file system the state file lives in\<close>

text \<open>
  A path names a regular file with its content, a directory, or an entry that exists
  but cannot be opened.
\<close>

datatype node = File string | Dir | Locked

type_synonym fs = "string \<rightharpoonup> node"

definition existsSync :: "fs \<Rightarrow> string \<Rightarrow> bool" where
  "existsSync f p = (f p \<noteq> None)"

definition readFileSync :: "fs \<Rightarrow> string \<Rightarrow> fs_error + string" where
  "readFileSync f p =
     (case f p of
        None \<Rightarrow> Inl ENOENT
      | Some (File c) \<Rightarrow> Inr c
      | Some Dir \<Rightarrow> Inl EISDIR
      | Some Locked \<Rightarrow> Inl EACCES)"

text \<open>\<open>getStateFilePath\<close>: the file \<open>engine-state.json\<close> in the state directory.\<close>

definition getStateFilePath :: "string \<Rightarrow> string" where
  "getStateFilePath stateDir = stateDir @ ''/engine-state.json''"

subsection \<open>readEngineState\<close>

text \<open>
  The body of the \<open>try\<close> block. \<open>JSON_parse\<close> is the platform's \<open>JSON.parse\<close>
  (\<open>None\<close> when it throws a SyntaxError). The test
  \<open>!state.pid || typeof state.port !== 'number'\<close> reads \<open>port\<close> only when
  \<open>pid\<close> is truthy.
\<close>

definition readEngineState_try ::
  "(string \<Rightarrow> json option) \<Rightarrow> string \<Rightarrow> fs \<Rightarrow> js_error + json option" where
  "readEngineState_try JSON_parse stateDir f =
     (let statePath = getStateFilePath stateDir in
      if \<not> existsSync f statePath then Inr None
      else case readFileSync f statePath of
        Inl e \<Rightarrow> Inl (FsError e)
      | Inr content \<Rightarrow>
          (case JSON_parse content of
             None \<Rightarrow> Inl SyntaxError
           | Some state \<Rightarrow>
               (case get_prop state ''pid'' of
                  Inl e \<Rightarrow> Inl e
                | Inr pid \<Rightarrow>
                    if \<not> truthy pid then Inr None
                    else (case get_prop state ''port'' of
                            Inl e \<Rightarrow> Inl e
                          | Inr port \<Rightarrow>
                              if \<not> is_number port then Inr None else Inr (Some state)))))"

text \<open>\<open>catch (e) { return null; }\<close>\<close>

definition readEngineState :: "(string \<Rightarrow> json option) \<Rightarrow> string \<Rightarrow> fs \<Rightarrow> json option" where
  "readEngineState JSON_parse stateDir f =
     (case readEngineState_try JSON_parse stateDir f of
        Inl e \<Rightarrow> None
      | Inr r \<Rightarrow> r)"

text \<open>
  A well-formed record \<open>{pid, port, timestamp, version}\<close>: the three numbers and the
  string are there, and the process id is not 0.
\<close>

fun valid_record :: "json \<Rightarrow> bool" where
  "valid_record (JObj kvs) =
     ((case map_of kvs ''pid'' of Some (JNum n) \<Rightarrow> n \<noteq> 0 | _ \<Rightarrow> False) \<and>
      (case map_of kvs ''port'' of Some (JNum n) \<Rightarrow> True | _ \<Rightarrow> False) \<and>
      (case map_of kvs ''timestamp'' of Some (JNum n) \<Rightarrow> True | _ \<Rightarrow> False) \<and>
      (case map_of kvs ''version'' of Some (JStr s) \<Rightarrow> True | _ \<Rightarrow> False))"
| "valid_record v = False"

text \<open>
  Texts and values for the examples of this section, and what \<open>JSON.parse\<close> returns
  on these texts; any other text is left unparsed here.
\<close>

definition text_pid_port :: string where
  \<open>text_pid_port = ''{"pid":1234,"port":9000}''\<close>

definition text_no_pid :: string where
  \<open>text_no_pid = ''{"port":9000,"timestamp":1700000000000,"version":"1.0.0"}''\<close>

definition text_full :: string where
  \<open>text_full = ''{"pid":1234,"port":9000,"timestamp":1700000000000,"version":"1.0.0"}''\<close>

text \<open>The same record as \<open>JSON.stringify(v, null, 2)\<close> writes it: one field per line,
  indented by two spaces.\<close>

definition text_written :: string where
  \<open>text_written =
     ''{'' @ [CHR 0x0A] @
     ''  "pid": 1234,'' @ [CHR 0x0A] @
     ''  "port": 9000,'' @ [CHR 0x0A] @
     ''  "timestamp": 1700000000000,'' @ [CHR 0x0A] @
     ''  "version": "1.0.0"'' @ [CHR 0x0A] @
     ''}''\<close>

definition value_pid_port :: json where
  "value_pid_port = JObj [(''pid'', JNum 1234), (''port'', JNum 9000)]"

definition value_no_pid :: json where
  "value_no_pid = JObj [(''port'', JNum 9000), (''timestamp'', JNum 1700000000000),
                        (''version'', JStr ''1.0.0'')]"

definition value_full :: json where
  "value_full = JObj [(''pid'', JNum 1234), (''port'', JNum 9000),
                      (''timestamp'', JNum 1700000000000), (''version'', JStr ''1.0.0'')]"

definition JSON_parse_examples :: "string \<Rightarrow> json option" where
  "JSON_parse_examples s =
     (if s = text_pid_port then Some value_pid_port
      else if s = text_no_pid then Some value_no_pid
      else if s = text_full then Some value_full
      else if s = text_written then Some value_full
      else if s = ''null'' then Some JNull
      else None)"

text \<open>A file system holding the state directory \<open>/run\<close> and a state file with content \<open>c\<close>.\<close>

definition fs_example :: "string \<Rightarrow> fs" where
  "fs_example c = [''/run'' \<mapsto> Dir, ''/run/engine-state.json'' \<mapsto> File c]"

subsection \<open>writeEngineState\<close>

text \<open>The argument of \<open>writeEngineState\<close>: \<open>Omit<EngineState, 'timestamp' | 'version'>\<close>.\<close>

record endpoint =
  pid :: rat
  port :: rat

text \<open>\<open>{ ...state, timestamp: Date.now(), version: '1.0.0' }\<close>\<close>

definition fullState :: "endpoint \<Rightarrow> rat \<Rightarrow> json" where
  "fullState state now =
     JObj [(''pid'', JNum (pid state)), (''port'', JNum (port state)),
           (''timestamp'', JNum now), (''version'', JStr ''1.0.0'')]"

text \<open>\<open>mkdirSync(p, { recursive: true })\<close>: an existing directory is not an error.\<close>

definition mkdirSync :: "fs \<Rightarrow> string \<Rightarrow> fs_error + fs" where
  "mkdirSync f p =
     (case f p of
        None \<Rightarrow> Inr (f(p \<mapsto> Dir))
      | Some Dir \<Rightarrow> Inr f
      | Some n \<Rightarrow> Inl EEXIST)"

text \<open>
  \<open>writeFileSync(p, data)\<close> opens the file for writing, which creates or empties it,
  and then writes \<open>data\<close> in one or several pieces. The states listed are those another
  process can see while it runs: the file holding each prefix of \<open>data\<close> in turn, the
  last one holding all of it.
\<close>

definition writeFileSync :: "fs \<Rightarrow> string \<Rightarrow> string \<Rightarrow> fs_error + fs list" where
  "writeFileSync f p data =
     (case f p of
        Some Dir \<Rightarrow> Inl EISDIR
      | Some Locked \<Rightarrow> Inl EACCES
      | _ \<Rightarrow> Inr (map (\<lambda>k. f(p \<mapsto> File (take k data))) [0..<Suc (length data)]))"

text \<open>\<open>renameSync(a, b)\<close> replaces the entry \<open>b\<close> by the entry \<open>a\<close> in one step.\<close>

definition renameSync :: "fs \<Rightarrow> string \<Rightarrow> string \<Rightarrow> fs_error + fs" where
  "renameSync f a b =
     (case f a of
        None \<Rightarrow> Inl ENOENT
      | Some n \<Rightarrow>
          (case f b of
             Some Dir \<Rightarrow> Inl EISDIR
           | _ \<Rightarrow> Inr ((f(b \<mapsto> n))(a := None))))"

text \<open>
  \<open>writeEngineState\<close> returns the successive states of the file system, the first
  being the one it started in, and the error it threw, if any. \<open>JSON_stringify v\<close> is
  the platform's \<open>JSON.stringify(v, null, 2)\<close>, \<open>now\<close> is \<open>Date.now()\<close>.
\<close>

definition writeEngineState ::
  "(json \<Rightarrow> string) \<Rightarrow> string \<Rightarrow> endpoint \<Rightarrow> rat \<Rightarrow> fs \<Rightarrow> fs list \<times> fs_error option" where
  "writeEngineState JSON_stringify stateDir state now f =
     (let statePath = getStateFilePath stateDir in
      case (if \<not> existsSync f stateDir then mkdirSync f stateDir else Inr f) of
        Inl e \<Rightarrow> ([f], Some e)
      | Inr f1 \<Rightarrow>
          (let tempPath = statePath @ ''.tmp'';
               data = JSON_stringify (fullState state now) in
           case writeFileSync f1 tempPath data of
             Inl e \<Rightarrow> ([f, f1], Some e)
           | Inr ws \<Rightarrow>
               (case renameSync (last ws) tempPath statePath of
                  Inl e \<Rightarrow> ([f, f1] @ ws, Some e)
                | Inr f3 \<Rightarrow> ([f, f1] @ ws @ [f3], None))))"

text \<open>
  The text \<open>JSON.stringify(v, null, 2)\<close> gives for the record of the examples, and the
  endpoint that record is made from.
\<close>

definition JSON_stringify_examples :: "json \<Rightarrow> string" where
  "JSON_stringify_examples v = (if v = value_full then text_written else ''null'')"

definition endpoint_example :: endpoint where
  "endpoint_example = \<lparr>pid = 1234, port = 9000\<rparr>"

subsection \<open>pollEngineState\<close>

text \<open>
  The polling loop keeps \<open>lastTimestamp\<close>; \<open>calls\<close> lists the arguments the callback
  has been invoked with, oldest first (\<open>None\<close> is \<open>null\<close>).
\<close>

record poller =
  lastTimestamp :: jsval
  calls :: "json option list"

definition poller_init :: poller where
  "poller_init = \<lparr>lastTimestamp = Val (JNum 0), calls = []\<rparr>"

text \<open>
  One run of \<open>poll\<close>, in the file system as it is at that moment:
  \<open>if (state && state.timestamp !== lastTimestamp) ... else if (!state && lastTimestamp !== 0) ...\<close>
\<close>

definition poll ::
  "(string \<Rightarrow> json option) \<Rightarrow> string \<Rightarrow> fs \<Rightarrow> poller \<Rightarrow> js_error + poller" where
  "poll JSON_parse stateDir f P =
     (let removed =
            (if \<not> strict_eq (lastTimestamp P) (Val (JNum 0))
             then P\<lparr>lastTimestamp := Val (JNum 0), calls := calls P @ [None]\<rparr>
             else P) in
      case readEngineState JSON_parse stateDir f of
        None \<Rightarrow> Inr removed
      | Some state \<Rightarrow>
          if truthy (Val state) then
            (case get_prop state ''timestamp'' of
               Inl e \<Rightarrow> Inl e
             | Inr ts \<Rightarrow>
                 if \<not> strict_eq ts (lastTimestamp P)
                 then Inr (P\<lparr>lastTimestamp := ts, calls := calls P @ [Some state]\<rparr>)
                 else Inr P)
          else Inr removed)"

text \<open>
  \<open>pollEngineState\<close>: the initial \<open>poll()\<close> and then one per interval, each in the
  file system of its moment. An exception would end the run.
\<close>

fun poll_all ::
  "(string \<Rightarrow> json option) \<Rightarrow> string \<Rightarrow> fs list \<Rightarrow> poller \<Rightarrow> js_error + poller" where
  "poll_all JSON_parse stateDir [] P = Inr P"
| "poll_all JSON_parse stateDir (f # fs) P =
     (case poll JSON_parse stateDir f P of
        Inl e \<Rightarrow> Inl e
      | Inr P' \<Rightarrow> poll_all JSON_parse stateDir fs P')"

definition pollEngineState ::
  "(string \<Rightarrow> json option) \<Rightarrow> string \<Rightarrow> fs list \<Rightarrow> js_error + poller" where
  "pollEngineState JSON_parse stateDir fs = poll_all JSON_parse stateDir fs poller_init"

text \<open>
  For stating what the polling loop does: the \<open>timestamp\<close> of a record the callback
  received, and the value \<open>lastTimestamp\<close> is expected to hold after the calls made so
  far (0 before any call and after a call with \<open>null\<close>).
\<close>

definition timestamp_of :: "json \<Rightarrow> jsval" where
  "timestamp_of r = (case get_prop r ''timestamp'' of Inl e \<Rightarrow> Undefined | Inr t \<Rightarrow> t)"

definition last_notified :: "poller \<Rightarrow> jsval" where
  "last_notified P =
     (if calls P = [] then Val (JNum 0)
      else case last (calls P) of None \<Rightarrow> Val (JNum 0) | Some r \<Rightarrow> timestamp_of r)"


section \<open>The link to the engine (the language server's TCP client)\<close>

subsection \<open>Text\<close>

text \<open>
  A JavaScript string is a sequence of UTF-16 code units, here natural numbers below
  \<open>0x10000\<close>; a socket delivers bytes.
\<close>

type_synonym jstring = "nat list"

text \<open>
  \<open>data.toString()\<close> decodes the bytes of one chunk as UTF-8. \<open>utf8_from cp need lo hi\<close>
  is the decoder in the middle of a character: \<open>need\<close> continuation bytes are still to
  come, the next one within \<open>lo..hi\<close>, and \<open>cp\<close> holds the bits read so far. A byte
  that cannot start or continue a character gives U+FFFD, and so does a character cut
  off by the end of the chunk. The result is the list of code points.
\<close>

fun utf8_from :: "nat \<Rightarrow> nat \<Rightarrow> nat \<Rightarrow> nat \<Rightarrow> nat list \<Rightarrow> nat list" where
  "utf8_from cp need lo hi [] = (if need = 0 then [] else [0xFFFD])"
| "utf8_from cp need lo hi (b # bs) =
     (if need = 0 then
        (if b \<le> 0x7F then b # utf8_from 0 0 0x80 0xBF bs
         else if 0xC2 \<le> b \<and> b \<le> 0xDF then utf8_from (b mod 32) 1 0x80 0xBF bs
         else if 0xE0 \<le> b \<and> b \<le> 0xEF then
           utf8_from (b mod 16) 2 (if b = 0xE0 then 0xA0 else 0x80)
             (if b = 0xED then 0x9F else 0xBF) bs
         else if 0xF0 \<le> b \<and> b \<le> 0xF4 then
           utf8_from (b mod 8) 3 (if b = 0xF0 then 0x90 else 0x80)
             (if b = 0xF4 then 0x8F else 0xBF) bs
         else 0xFFFD # utf8_from 0 0 0x80 0xBF bs)
      else if b < lo \<or> hi < b then 0xFFFD # utf8_from 0 0 0x80 0xBF (b # bs)
      else if need = 1 then (cp * 64 + b mod 64) # utf8_from 0 0 0x80 0xBF bs
      else utf8_from (cp * 64 + b mod 64) (need - 1) 0x80 0xBF bs)"

text \<open>A code point as UTF-16: itself, or a surrogate pair.\<close>

definition utf16 :: "nat \<Rightarrow> jstring" where
  "utf16 cp =
     (if cp < 0x10000 then [cp]
      else [0xD800 + (cp - 0x10000) div 0x400, 0xDC00 + (cp - 0x10000) mod 0x400])"

definition toString :: "8 word list \<Rightarrow> jstring" where
  "toString data = concat (map utf16 (utf8_from 0 0 0x80 0xBF (map unat data)))"

text \<open>\<open>s.indexOf(c)\<close> for a single code unit \<open>c\<close>; \<open>None\<close> is \<open>-1\<close>.\<close>

fun indexOf :: "jstring \<Rightarrow> nat \<Rightarrow> nat option" where
  "indexOf [] c = None"
| "indexOf (x # xs) c = (if x = c then Some 0 else map_option Suc (indexOf xs c))"

text \<open>The code units \<open>trim()\<close> removes: white space and line terminators.\<close>

definition is_js_space :: "nat \<Rightarrow> bool" where
  "is_js_space c =
     (c \<in> {0x09, 0x0A, 0x0B, 0x0C, 0x0D, 0x20, 0xA0, 0x1680, 0x2028, 0x2029, 0x202F,
            0x205F, 0x3000, 0xFEFF} \<or> (0x2000 \<le> c \<and> c \<le> 0x200A))"

text \<open>\<open>line.trim()\<close> as a condition: the trimmed line is not empty.\<close>

definition trim_truthy :: "jstring \<Rightarrow> bool" where
  "trim_truthy line = list_ex (\<lambda>c. \<not> is_js_space c) line"

subsection \<open>The data handler\<close>

text \<open>
  What the loop body does with one line. \<open>JSON_parse\<close> is the platform's
  \<open>JSON.parse\<close> on a line (\<open>None\<close> when it throws, which the \<open>catch\<close> ignores);
  \<open>handled\<close> lists the messages passed to \<open>handleEngineMessage\<close>, oldest first.
\<close>

definition handle_line :: "(jstring \<Rightarrow> 'm option) \<Rightarrow> jstring \<Rightarrow> 'm list \<Rightarrow> 'm list" where
  "handle_line JSON_parse line handled =
     (if trim_truthy line
      then (case JSON_parse line of None \<Rightarrow> handled | Some msg \<Rightarrow> handled @ [msg])
      else handled)"

text \<open>
  \<open>while ((newlineIndex = engineBuffer.indexOf('\n')) !== -1) { ... }\<close>: the buffer and
  the handled messages when the loop ends.
\<close>

function process_lines ::
  "(jstring \<Rightarrow> 'm option) \<Rightarrow> jstring \<Rightarrow> 'm list \<Rightarrow> jstring \<times> 'm list" where
  "process_lines JSON_parse buf handled =
     (case indexOf buf 0x0A of
        None \<Rightarrow> (buf, handled)
      | Some newlineIndex \<Rightarrow>
          process_lines JSON_parse (drop (newlineIndex + 1) buf)
            (handle_line JSON_parse (take newlineIndex buf) handled))"
  by pat_completeness auto
termination
proof (relation "measure (\<lambda>(J, buf, handled). length buf)", goal_cases)
  case 1
  show ?case by simp
next
  case (2 J buf handled newlineIndex)
  then have "buf \<noteq> []" by (cases buf) simp_all
  then show ?case by simp
qed

declare process_lines.simps [simp del]

subsection \<open>Sockets, timers and the state of the client\<close>

text \<open>
  A socket the client has created: connecting, open, destroyed with its \<open>close\<close>
  event still to come, or closed. Sockets are numbered in the order of their creation.
\<close>

datatype sock_status = Connecting | Open | Destroyed | Closed

record sock =
  remote_port :: rat
  status :: sock_status
  created :: nat

text \<open>A timer set with \<open>setTimeout\<close>: when it is due, what it will connect to, and
  whether it is still to fire (not yet fired and not cleared).\<close>

record timer =
  due :: nat
  target :: endpoint
  pending :: bool

text \<open>
  The module's variables \<open>engineSocket\<close>, \<open>engineBuffer\<close>, \<open>reconnectTimer\<close>, and the
  platform's side: every socket and timer created so far, the lines written to sockets,
  the time in milliseconds, and the exception that ended the process, if any.
\<close>

record 'm link =
  engineSocket :: "nat option"
  engineBuffer :: jstring
  reconnectTimer :: "nat option"
  handled :: "'m list"
  sockets :: "sock list"
  timers :: "timer list"
  written :: "(nat \<times> string) list"
  clock :: nat
  uncaught :: "js_error option"

definition link_init :: "'m link" where
  "link_init = \<lparr>engineSocket = None, engineBuffer = [], reconnectTimer = None, handled = [],
                 sockets = [], timers = [], written = [], clock = 0, uncaught = None\<rparr>"

definition status_of :: "'m link \<Rightarrow> nat \<Rightarrow> sock_status option" where
  "status_of L s = (if s < length (sockets L) then Some (status (sockets L ! s)) else None)"

definition set_status :: "nat \<Rightarrow> sock_status \<Rightarrow> 'm link \<Rightarrow> 'm link" where
  "set_status s st L = L\<lparr>sockets := (sockets L)[s := (sockets L ! s)\<lparr>status := st\<rparr>]\<rparr>"

text \<open>\<open>socket.destroy()\<close>: no effect on a socket already destroyed.\<close>

definition destroy :: "nat \<Rightarrow> 'm link \<Rightarrow> 'm link" where
  "destroy s L =
     (if status_of L s = Some Connecting \<or> status_of L s = Some Open
      then set_status s Destroyed L else L)"

text \<open>The sockets that are connecting or open.\<close>

definition live :: "'m link \<Rightarrow> nat list" where
  "live L = filter (\<lambda>s. status (sockets L ! s) = Connecting \<or> status (sockets L ! s) = Open)
              [0..<length (sockets L)]"

text \<open>\<open>net.createConnection\<close> throws a RangeError for a port that is not an integer
  within \<open>0..65535\<close>.\<close>

definition legal_port :: "rat \<Rightarrow> bool" where
  "legal_port n = (0 \<le> n \<and> n \<le> 65535 \<and> of_int \<lfloor>n\<rfloor> = n)"

text \<open>
  \<open>tryConnect(state)\<close>: destroy the socket \<open>engineSocket\<close> refers to, if any, and
  create a new one, which starts connecting. \<open>engineSocket\<close> is set to the new socket
  later, by the callback of the connection.
\<close>

definition tryConnect :: "endpoint \<Rightarrow> 'm link \<Rightarrow> 'm link" where
  "tryConnect state L =
     (let L1 = (case engineSocket L of
                  Some s \<Rightarrow> (destroy s L)\<lparr>engineSocket := None\<rparr>
                | None \<Rightarrow> L)
      in if \<not> legal_port (port state) then L1\<lparr>uncaught := Some RangeError\<rparr>
         else L1\<lparr>sockets := sockets L1 @
                    [\<lparr>remote_port = port state, status = Connecting, created = clock L1\<rparr>]\<rparr>)"

text \<open>The callback of \<open>createConnection\<close>, for socket \<open>s\<close>.\<close>

definition on_connect :: "nat \<Rightarrow> 'm link \<Rightarrow> 'm link" where
  \<open>on_connect s L =
     L\<lparr>engineSocket := Some s,
       written := written L @
         [(s, ''{"type":"getSamples"}'' @ [CHR 0x0A]),
          (s, ''{"type":"getBanks"}'' @ [CHR 0x0A]),
          (s, ''{"type":"getSounds"}'' @ [CHR 0x0A])]\<rparr>\<close>

text \<open>\<open>socket.on('data', ...)\<close>\<close>

definition on_data :: "(jstring \<Rightarrow> 'm option) \<Rightarrow> 8 word list \<Rightarrow> 'm link \<Rightarrow> 'm link" where
  "on_data JSON_parse data L =
     (let r = process_lines JSON_parse (engineBuffer L @ toString data) (handled L)
      in L\<lparr>engineBuffer := fst r, handled := snd r\<rparr>)"

text \<open>\<open>socket.on('error', ...)\<close> and \<open>socket.on('close', ...)\<close>\<close>

definition on_error :: "'m link \<Rightarrow> 'm link" where
  "on_error L = L\<lparr>engineSocket := None\<rparr>"

definition on_close :: "'m link \<Rightarrow> 'm link" where
  "on_close L = L\<lparr>engineSocket := None, engineBuffer := []\<rparr>"

text \<open>
  The handler given to \<open>watchEngineState\<close>. \<open>running\<close> is what
  \<open>isEngineRunning(newState)\<close> returns. A timer that is replaced has been cleared.
\<close>

definition clearTimeout :: "nat \<Rightarrow> 'm link \<Rightarrow> 'm link" where
  "clearTimeout t L = L\<lparr>timers := (timers L)[t := (timers L ! t)\<lparr>pending := False\<rparr>]\<rparr>"

definition on_watch :: "endpoint option \<Rightarrow> bool \<Rightarrow> 'm link \<Rightarrow> 'm link" where
  "on_watch newState running L =
     (case newState of
        Some st \<Rightarrow>
          if running \<and> port st > 0 then
            (let L1 = (case reconnectTimer L of
                         Some t \<Rightarrow> (clearTimeout t L)\<lparr>reconnectTimer := None\<rparr>
                       | None \<Rightarrow> L)
             in L1\<lparr>reconnectTimer := Some (length (timers L1)),
                   timers := timers L1 @ [\<lparr>due = clock L1 + 500, target = st, pending = True\<rparr>]\<rparr>)
          else L
      | None \<Rightarrow>
          (case engineSocket L of
             Some s \<Rightarrow> (destroy s L)\<lparr>engineSocket := None\<rparr>
           | None \<Rightarrow> L))"

text \<open>A timer fires once it is due: it runs \<open>tryConnect(newState)\<close>.\<close>

definition fire :: "nat \<Rightarrow> 'm link \<Rightarrow> 'm link" where
  "fire t L =
     (if uncaught L = None \<and> pending (timers L ! t) \<and> due (timers L ! t) \<le> clock L
      then tryConnect (target (timers L ! t)) (clearTimeout t L)
      else L)"

text \<open>
  What can happen to the client: the watcher reports a state, time passes, and a socket
  connects, delivers a chunk, fails or closes. The platform delivers \<open>connect\<close> to a
  connecting socket and \<open>data\<close> to an open one; a socket that fails is destroyed by the
  platform before its \<open>error\<close> handler runs; \<open>close\<close> is the last event of a socket.
  After an uncaught exception nothing happens any more.
\<close>

datatype event =
    Watch "endpoint option" bool
  | Elapse nat
  | Connected nat
  | Data nat "8 word list"
  | Error nat
  | Close nat

fun step :: "(jstring \<Rightarrow> 'm option) \<Rightarrow> event \<Rightarrow> 'm link \<Rightarrow> 'm link" where
  "step J ev L =
     (if uncaught L \<noteq> None then L
      else case ev of
        Watch newState running \<Rightarrow> on_watch newState running L
      | Elapse ms \<Rightarrow> fold fire [0..<length (timers L)] (L\<lparr>clock := clock L + ms\<rparr>)
      | Connected s \<Rightarrow>
          if status_of L s = Some Connecting then on_connect s (set_status s Open L) else L
      | Data s data \<Rightarrow>
          if status_of L s = Some Open then on_data J data L else L
      | Error s \<Rightarrow>
          if status_of L s = Some Connecting \<or> status_of L s = Some Open
          then on_error (set_status s Destroyed L) else L
      | Close s \<Rightarrow>
          if status_of L s \<noteq> None \<and> status_of L s \<noteq> Some Closed
          then on_close (set_status s Closed L) else L)"

text \<open>The states the client goes through under a sequence of events, the first being
  the one it starts in.\<close>

fun states :: "(jstring \<Rightarrow> 'm option) \<Rightarrow> event list \<Rightarrow> 'm link \<Rightarrow> 'm link list" where
  "states J [] L = [L]"
| "states J (ev # evs) L = L # states J evs (step J ev L)"

definition run :: "(jstring \<Rightarrow> 'm option) \<Rightarrow> event list \<Rightarrow> 'm link \<Rightarrow> 'm link" where
  "run J evs L = fold (step J) evs L"

text \<open>
  \<open>connectToEngine\<close>: the initial attempt, with the state read at that moment; the
  watcher's handler then runs at every \<open>Watch\<close> event.
\<close>

definition connectToEngine :: "endpoint option \<Rightarrow> bool \<Rightarrow> 'm link" where
  "connectToEngine state running =
     (case state of
        Some st \<Rightarrow> if running \<and> port st > 0 then tryConnect st link_init else link_init
      | None \<Rightarrow> link_init)"

text \<open>
  Feeding the chunks of one connection to the data handler, starting with an empty
  buffer: the buffer left and the messages handled.
\<close>

definition feed :: "(jstring \<Rightarrow> 'm option) \<Rightarrow> 8 word list list \<Rightarrow> jstring \<times> 'm list" where
  "feed J chunks =
     fold (\<lambda>data r. process_lines J (fst r @ toString data) (snd r)) chunks ([], [])"

text \<open>For the examples: ASCII text as code units and as bytes, and two more endpoints.\<close>

definition ascii :: "string \<Rightarrow> jstring" where
  "ascii s = map of_char s"

definition ascii_bytes :: "string \<Rightarrow> 8 word list" where
  "ascii_bytes s = map of_char s"

definition endpoint_B :: endpoint where
  "endpoint_B = \<lparr>pid = 2345, port = 9001\<rparr>"

definition endpoint_C :: endpoint where
  "endpoint_C = \<lparr>pid = 3456, port = 9002\<rparr>"


section \<open>The relay to the external synthesizer (osc-output)\<close>

subsection \<open>Control values\<close>

text \<open>
  A value in an event's control map: a primitive, or any other object, which is kept
  as the text that \<open>String(v)\<close> gives for it. The type \<open>'n\<close> stands for JavaScript's numbers
  (doubles); their arithmetic is the platform's and is passed in as \<open>N\<close>: division,
  addition and multiplication, which numbers are falsy (\<open>0\<close>, \<open>-0\<close>, \<open>NaN\<close>),
  \<open>String(x)\<close>, \<open>Number(s)\<close>, the value of an integer literal, and \<open>NaN\<close>.
\<close>

datatype 'n cval = CUndefined | CNull | CBool bool | CNum 'n | CStr string | COther string

record 'n numbers =
  num_div :: "'n \<Rightarrow> 'n \<Rightarrow> 'n"
  num_add :: "'n \<Rightarrow> 'n \<Rightarrow> 'n"
  num_mul :: "'n \<Rightarrow> 'n \<Rightarrow> 'n"
  num_falsy :: "'n \<Rightarrow> bool"
  num_text :: "'n \<Rightarrow> string"
  text_num :: "string \<Rightarrow> 'n"
  num_lit :: "int \<Rightarrow> 'n"
  num_nan :: 'n

fun truthy_c :: "'n numbers \<Rightarrow> 'n cval \<Rightarrow> bool" where
  "truthy_c N CUndefined = False"
| "truthy_c N CNull = False"
| "truthy_c N (CBool b) = b"
| "truthy_c N (CNum x) = (\<not> num_falsy N x)"
| "truthy_c N (CStr s) = (s \<noteq> [])"
| "truthy_c N (COther s) = True"

text \<open>\<open>Number(v)\<close>, \<open>String(v)\<close> and the operator \<open>+\<close>, which concatenates as soon as
  one side is a string or an object.\<close>

fun to_number :: "'n numbers \<Rightarrow> 'n cval \<Rightarrow> 'n" where
  "to_number N CUndefined = num_nan N"
| "to_number N CNull = num_lit N 0"
| "to_number N (CBool b) = (if b then num_lit N 1 else num_lit N 0)"
| "to_number N (CNum x) = x"
| "to_number N (CStr s) = text_num N s"
| "to_number N (COther s) = text_num N s"

fun to_string :: "'n numbers \<Rightarrow> 'n cval \<Rightarrow> string" where
  "to_string N CUndefined = ''undefined''"
| "to_string N CNull = ''null''"
| "to_string N (CBool b) = (if b then ''true'' else ''false'')"
| "to_string N (CNum x) = num_text N x"
| "to_string N (CStr s) = s"
| "to_string N (COther s) = s"

fun is_text :: "'n cval \<Rightarrow> bool" where
  "is_text (CStr s) = True"
| "is_text (COther s) = True"
| "is_text v = False"

definition js_plus :: "'n numbers \<Rightarrow> 'n cval \<Rightarrow> 'n cval \<Rightarrow> 'n cval" where
  "js_plus N a b =
     (if is_text a \<or> is_text b then CStr (to_string N a @ to_string N b)
      else CNum (num_add N (to_number N a) (to_number N b)))"

text \<open>\<open>typeof v === 'number'\<close> and \<open>v != null\<close>.\<close>

fun is_numeric :: "'n cval \<Rightarrow> bool" where
  "is_numeric (CNum x) = True"
| "is_numeric v = False"

fun not_nullish :: "'n cval \<Rightarrow> bool" where
  "not_nullish CUndefined = False"
| "not_nullish CNull = False"
| "not_nullish v = True"

text \<open>
  An object as the list of its properties in insertion order. Assigning to a key
  replaces the value in place or adds the key at the end; reading a missing key gives
  \<open>undefined\<close>.
\<close>

fun set_key :: "string \<Rightarrow> 'v \<Rightarrow> (string \<times> 'v) list \<Rightarrow> (string \<times> 'v) list" where
  "set_key k v [] = [(k, v)]"
| "set_key k v ((k', v') # kvs) =
     (if k' = k then (k, v) # kvs else (k', v') # set_key k v kvs)"

definition get_key :: "(string \<times> 'n cval) list \<Rightarrow> string \<Rightarrow> 'n cval" where
  "get_key kvs k = (case map_of kvs k of None \<Rightarrow> CUndefined | Some v \<Rightarrow> v)"

subsection \<open>hapToOscArgs\<close>

text \<open>
  What the function reads of a hap: \<open>hap.value\<close> when it is an object (\<open>None\<close> when it
  is missing or a primitive that spreads to nothing), the number
  \<open>hap.wholeOrPart().begin.valueOf()\<close> and the number \<open>hap.duration.valueOf()\<close>, each
  \<open>None\<close> when the chain of optional accesses gives \<open>undefined\<close>.
\<close>

record 'n hap =
  hap_value :: "(string \<times> 'n cval) list option"
  hap_begin :: "'n option"
  hap_duration :: "'n option"

text \<open>One argument of the OSC message: \<open>{type: 's', value}\<close> or \<open>{type: 'f', value}\<close>.\<close>

datatype 'n osc_arg = ArgS string | ArgF 'n

text \<open>
  The first part of \<open>hapToOscArgs\<close>: the \<open>controls\<close> object after the four
  adjustments. \<open>isNote\<close> and \<open>noteToMidi\<close> are the functions imported from
  \<open>@strudel/core\<close>; \<open>noteToMidi\<close> gives \<open>None\<close> when it throws.
\<close>

definition hap_controls ::
  "'n numbers \<Rightarrow> ('n cval \<Rightarrow> bool) \<Rightarrow> ('n cval \<Rightarrow> 'n cval \<Rightarrow> 'n option) \<Rightarrow> 'n hap \<Rightarrow> 'n
     \<Rightarrow> js_error + (string \<times> 'n cval) list" where
  "hap_controls N isNote noteToMidi hap cps =
     (let value = (case hap_value hap of None \<Rightarrow> [] | Some kvs \<Rightarrow> kvs);
          begin = (case hap_begin hap of None \<Rightarrow> num_lit N 0 | Some b \<Rightarrow> b);
          duration = (case hap_duration hap of None \<Rightarrow> num_lit N 1 | Some d \<Rightarrow> d);
          delta = num_div N duration cps;
          controls = fold (\<lambda>(k, v). set_key k v) value
                       [(''cps'', CNum cps), (''cycle'', CNum begin), (''delta'', CNum delta)];
          note = get_key controls ''note'';
          octave = get_key controls ''octave''
      in case (if note \<noteq> CUndefined then
                 if isNote note then
                   (case noteToMidi note (if truthy_c N octave then octave else CNum (num_lit N 3)) of
                      None \<Rightarrow> Inl OtherError
                    | Some m \<Rightarrow> Inr (set_key ''midinote'' (CNum m) controls))
                 else if is_numeric note then Inr (set_key ''midinote'' note controls)
                 else Inr controls
               else Inr controls) of
           Inl e \<Rightarrow> Inl e
         | Inr controls1 \<Rightarrow>
             (let controls2 =
                    (if truthy_c N (get_key controls1 ''bank'') \<and> truthy_c N (get_key controls1 ''s'')
                     then set_key ''s''
                            (js_plus N (get_key controls1 ''bank'') (get_key controls1 ''s''))
                            controls1
                     else controls1);
                  controls3 =
                    (if truthy_c N (get_key controls2 ''roomsize'')
                     then set_key ''size'' (get_key controls2 ''roomsize'') controls2
                     else controls2);
                  controls4 =
                    (if get_key controls3 ''unit'' = CStr ''c''
                        \<and> not_nullish (get_key controls3 ''speed'')
                     then set_key ''speed''
                            (CNum (num_div N (to_number N (get_key controls3 ''speed'')) cps))
                            controls3
                     else controls3)
              in Inr controls4))"

text \<open>The second part: the entries that are neither \<open>undefined\<close> nor \<open>null\<close>, each
  as its key and its value, a number as \<open>'f'\<close> and anything else as \<open>'s'\<close>.\<close>

fun flatten :: "'n numbers \<Rightarrow> (string \<times> 'n cval) list \<Rightarrow> 'n osc_arg list" where
  "flatten N [] = []"
| "flatten N ((key, val) # kvs) =
     (if not_nullish val
      then ArgS key # (case val of CNum x \<Rightarrow> ArgF x | v \<Rightarrow> ArgS (to_string N v)) # flatten N kvs
      else flatten N kvs)"

definition hapToOscArgs ::
  "'n numbers \<Rightarrow> ('n cval \<Rightarrow> bool) \<Rightarrow> ('n cval \<Rightarrow> 'n cval \<Rightarrow> 'n option) \<Rightarrow> 'n hap \<Rightarrow> 'n
     \<Rightarrow> js_error + 'n osc_arg list" where
  "hapToOscArgs N isNote noteToMidi hap cps =
     (case hap_controls N isNote noteToMidi hap cps of
        Inl e \<Rightarrow> Inl e
      | Inr controls \<Rightarrow> Inr (flatten N controls))"

subsection \<open>sendHapToSuperDirt\<close>

text \<open>
  The module's variables \<open>udpPort\<close>, \<open>isOpen\<close> and \<open>oscDebug\<close>, and what the module
  has done to the outside: the bundles handed to \<open>udpPort.send\<close> without an exception,
  and the lines printed on the console.
\<close>

record 'n osc_bundle =
  timestampMs :: 'n
  address :: string
  args :: "'n osc_arg list"

datatype 'n console_line = SentLine "'n cval" | ErrorSendingHap js_error

record 'n relay =
  udpPort :: "nat option"
  isOpen :: bool
  oscDebug :: bool
  sent :: "'n osc_bundle list"
  console :: "'n console_line list"




definition on_ready :: "'n relay \<Rightarrow> 'n relay" where
  "on_ready R = R\<lparr>isOpen := True\<rparr>"


subsection \<open>What the datagram carries\<close>

text \<open>
  For stating what \<open>hapToOscArgs\<close> computes: the arguments read back as pairs of key
  and value; the value a control is sent as; and the map the controls are expected to
  be. \<open>merged\<close> is the event's own controls over the three transport fields;
  \<open>expected_controls\<close> applies the four adjustments to it.
\<close>

fun arg_pairs :: "'n osc_arg list \<Rightarrow> (string \<times> 'n osc_arg) list" where
  "arg_pairs (ArgS k # v # rest) = (k, v) # arg_pairs rest"
| "arg_pairs rest = []"

definition sent_as :: "'n numbers \<Rightarrow> 'n cval option \<Rightarrow> 'n osc_arg option" where
  "sent_as N v =
     (case v of
        None \<Rightarrow> None
      | Some CUndefined \<Rightarrow> None
      | Some CNull \<Rightarrow> None
      | Some (CNum x) \<Rightarrow> Some (ArgF x)
      | Some w \<Rightarrow> Some (ArgS (to_string N w)))"

definition merged :: "'n numbers \<Rightarrow> 'n hap \<Rightarrow> 'n \<Rightarrow> string \<rightharpoonup> 'n cval" where
  "merged N hap cps =
     [''cps'' \<mapsto> CNum cps,
      ''cycle'' \<mapsto> CNum (case hap_begin hap of None \<Rightarrow> num_lit N 0 | Some b \<Rightarrow> b),
      ''delta'' \<mapsto> CNum (num_div N (case hap_duration hap of None \<Rightarrow> num_lit N 1 | Some d \<Rightarrow> d) cps)]
     ++ map_of (rev (case hap_value hap of None \<Rightarrow> [] | Some kvs \<Rightarrow> kvs))"

definition field :: "(string \<rightharpoonup> 'n cval) \<Rightarrow> string \<Rightarrow> 'n cval" where
  "field m k = (case m k of None \<Rightarrow> CUndefined | Some v \<Rightarrow> v)"

definition expected_controls ::
  "'n numbers \<Rightarrow> ('n cval \<Rightarrow> bool) \<Rightarrow> ('n cval \<Rightarrow> 'n cval \<Rightarrow> 'n option) \<Rightarrow> 'n hap \<Rightarrow> 'n
     \<Rightarrow> string \<rightharpoonup> 'n cval" where
  "expected_controls N isNote noteToMidi hap cps =
     (let m = merged N hap cps;
          note = field m ''note'';
          octave = (if truthy_c N (field m ''octave'') then field m ''octave''
                    else CNum (num_lit N 3));
          m1 = (if note \<noteq> CUndefined \<and> isNote note
                  then m(''midinote'' := map_option CNum (noteToMidi note octave))
                else if is_numeric note then m(''midinote'' \<mapsto> note)
                else m);
          m2 = (if truthy_c N (field m ''bank'') \<and> truthy_c N (field m ''s'')
                  then m1(''s'' \<mapsto> js_plus N (field m ''bank'') (field m ''s''))
                else m1);
          m3 = (if truthy_c N (field m ''roomsize'') then m2(''size'' \<mapsto> field m ''roomsize'')
                else m2)
      in if field m ''unit'' = CStr ''c'' \<and> not_nullish (field m ''speed'')
         then m3(''speed'' \<mapsto> CNum (num_div N (to_number N (field m ''speed'')) cps))
         else m3)"

text \<open>For the examples: rational numbers as numbers, and what \<open>isNote\<close> and
  \<open>noteToMidi\<close> give on the notes used.\<close>

definition rat_numbers :: "rat numbers" where
  "rat_numbers =
     \<lparr>num_div = (\<lambda>a b. a / b), num_add = (\<lambda>a b. a + b), num_mul = (\<lambda>a b. a * b),
      num_falsy = (\<lambda>a. a = 0), num_text = (\<lambda>a. ''?''), text_num = (\<lambda>s. 0),
      num_lit = of_int, num_nan = 0\<rparr>"

definition isNote_examples :: "rat cval \<Rightarrow> bool" where
  "isNote_examples v = (v = CStr ''c'' \<or> v = CStr ''e'' \<or> v = CStr ''g'')"

definition noteToMidi_examples :: "rat cval \<Rightarrow> rat cval \<Rightarrow> rat option" where
  "noteToMidi_examples v octave =
     (if octave = CNum 3 \<and> v = CStr ''c'' then Some 48
      else if octave = CNum 3 \<and> v = CStr ''e'' then Some 52
      else if octave = CNum 3 \<and> v = CStr ''g'' then Some 55
      else None)"


text \<open>Two events for the examples: a sample of a bank with a note, a unit and a speed;
  and an event that carries a tempo of its own and a note that is no note name.\<close>

definition hap_example :: "rat hap" where
  "hap_example =
     \<lparr>hap_value = Some [(''s'', CStr ''sd''), (''bank'', CStr ''RolandTR909''),
                         (''note'', CStr ''e''), (''unit'', CStr ''c''), (''speed'', CNum 2)],
      hap_begin = Some (3 / 2), hap_duration = Some (1 / 4)\<rparr>"

definition hap_override :: "rat hap" where
  "hap_override =
     \<lparr>hap_value = Some [(''s'', CStr ''bd''), (''cps'', CNum 2), (''note'', CStr ''x'')],
      hap_begin = Some 0, hap_duration = Some 1\<rparr>"



section \<open>The supervisor of the engine process (start_server)\<close>

text \<open>
  \<open>line:match('listening on')\<close>: the pattern has no magic character, so it matches
  when the line contains it.
\<close>

fun starts_with :: "string \<Rightarrow> string \<Rightarrow> bool" where
  "starts_with [] s = True"
| "starts_with (p # ps) [] = False"
| "starts_with (p # ps) (c # cs) = (p = c \<and> starts_with ps cs)"

fun contains :: "string \<Rightarrow> string \<Rightarrow> bool" where
  "contains p [] = starts_with p []"
| "contains p (c # cs) = (starts_with p (c # cs) \<or> contains p cs)"

text \<open>
  The locals of \<open>M.start_server\<close> that its \<open>on_stdout\<close> handler uses, and what the
  handler has done: the messages passed to \<open>M.debug\<close> and the number of times it has
  passed \<open>on_start\<close> to \<open>vim.schedule\<close>.
\<close>

record supervisor =
  started :: bool
  stdout_chunks :: "string list"
  debug_sink :: "string list"
  scheduled :: nat

definition supervisor_init :: supervisor where
  "supervisor_init = \<lparr>started = False, stdout_chunks = [], debug_sink = [], scheduled = 0\<rparr>"

text \<open>The body of the loop over \<open>data\<close>; \<open>has_on_start\<close> tells whether the caller
  gave a callback.\<close>

definition on_stdout_line :: "bool \<Rightarrow> string \<Rightarrow> supervisor \<Rightarrow> supervisor" where
  "on_stdout_line has_on_start line S =
     (if line \<noteq> [] then
        (let S1 = S\<lparr>stdout_chunks := stdout_chunks S @ [line],
                    debug_sink := debug_sink S @ [''[server] '' @ line]\<rparr>
         in if \<not> started S1 \<and> contains ''listening on'' line then
              (let S2 = S1\<lparr>started := True\<rparr>
               in if has_on_start then S2\<lparr>scheduled := scheduled S2 + 1\<rparr> else S2)
            else S1)
      else S)"

definition on_stdout :: "bool \<Rightarrow> string list \<Rightarrow> supervisor \<Rightarrow> supervisor" where
  "on_stdout has_on_start data S = fold (on_stdout_line has_on_start) data S"

text \<open>The handler called once per chunk of output, from the start of the process.\<close>

definition stdout_run :: "bool \<Rightarrow> string list list \<Rightarrow> supervisor" where
  "stdout_run has_on_start chunks = fold (on_stdout has_on_start) chunks supervisor_init"

text \<open>A line is a readiness line when it is not empty and contains the marker.\<close>

definition ready_line :: "string \<Rightarrow> bool" where
  "ready_line line = (line \<noteq> [] \<and> contains ''listening on'' line)"

text \<open>
  What Neovim passes to \<open>on_stdout\<close> for one read from the pipe: the bytes read, cut
  at the newlines. The last item is what follows the last newline, so it is empty when
  the read ends with a newline and otherwise the beginning of a line whose rest comes
  first in the next call.
\<close>

fun channel_lines :: "string \<Rightarrow> string list" where
  "channel_lines [] = [] # []"
| "channel_lines (c # cs) =
     (if c = CHR 0x0A then [] # channel_lines cs
      else (case channel_lines cs of [] \<Rightarrow> [c] # [] | l # ls \<Rightarrow> (c # l) # ls))"

text \<open>The handler over the successive reads of the engine's output.\<close>

definition stdout_reads :: "bool \<Rightarrow> string list \<Rightarrow> supervisor" where
  "stdout_reads has_on_start reads = stdout_run has_on_start (map channel_lines reads)"


section \<open>Properties of the state file\<close>

subsection \<open>Reading\<close>

lemma readEngineState_parsed:
  assumes "f (getStateFilePath d) = Some (File c)" and "J c = Some v"
  shows "readEngineState J d f =
    (case get_prop v ''pid'' of
       Inl e \<Rightarrow> None
     | Inr p \<Rightarrow>
         if \<not> truthy p then None
         else (case get_prop v ''port'' of
                 Inl e \<Rightarrow> None
               | Inr q \<Rightarrow> if is_number q then Some v else None))"
  using assms
  by (simp add: readEngineState_def readEngineState_try_def existsSync_def readFileSync_def Let_def
      split: sum.splits)

lemma is_number_iff: "is_number q = (\<exists>n. q = Val (JNum n))"
  by (cases q rule: is_number.cases) auto

lemma readEngineState_Some_iff:
  assumes "f (getStateFilePath d) = Some (File c)" and "J c = Some v"
  shows "(readEngineState J d f = Some v') =
     (v' = v \<and> (\<exists>kvs p n. v = JObj kvs \<and> map_of kvs ''pid'' = Some p \<and> truthy (Val p)
                \<and> map_of kvs ''port'' = Some (JNum n)))"
proof (cases v)
  case (JObj kvs)
  show ?thesis
    unfolding readEngineState_parsed[where f=f and d=d and J=J, OF assms] JObj
    by (auto simp: is_number_iff split: option.splits)
qed (auto simp: readEngineState_parsed[where f=f and d=d and J=J, OF assms])

lemma readEngineState_cases:
  "readEngineState J d f = None \<or>
   (\<exists>c v. f (getStateFilePath d) = Some (File c) \<and> J c = Some v \<and> readEngineState J d f = Some v)"
  by (auto simp add: readEngineState_def readEngineState_try_def existsSync_def readFileSync_def
      Let_def split: sum.splits option.splits node.splits)

lemma readEngineState_Some_object:
  assumes "readEngineState J d f = Some v"
  shows "\<exists>kvs. v = JObj kvs"
proof -
  from readEngineState_cases[of J d f] assms obtain c where
    c: "f (getStateFilePath d) = Some (File c)" "J c = Some v" by auto
  from readEngineState_Some_iff[where f=f and d=d and J=J and v'=v, OF c] assms
  show ?thesis by auto
qed

lemma readEngineState_same_file:
  "s (getStateFilePath d) = f (getStateFilePath d) \<Longrightarrow>
   readEngineState J d s = readEngineState J d f"
  by (simp add: readEngineState_def readEngineState_try_def existsSync_def readFileSync_def Let_def)

text \<open>
  Claim C5, as the specification states it, asks for "no engine" whenever one of the four
  fields \<open>pid\<close>, \<open>port\<close>, \<open>timestamp\<close>, \<open>version\<close> is missing or of the wrong type.
  \<open>readEngineState\<close> validates \<open>pid\<close> and \<open>port\<close> only ("just need pid and port"): a
  file without \<open>timestamp\<close> and \<open>version\<close> is returned as a record.
\<close>

theorem readEngineState_accepts_without_timestamp_version:
  "readEngineState JSON_parse_examples ''/run'' (fs_example text_pid_port) = Some value_pid_port
   \<and> get_prop value_pid_port ''timestamp'' = Inr Undefined
   \<and> get_prop value_pid_port ''version'' = Inr Undefined"
  by (simp add: readEngineState_def readEngineState_try_def getStateFilePath_def existsSync_def
      readFileSync_def JSON_parse_examples_def text_written_def fs_example_def text_pid_port_def
      value_pid_port_def)

text \<open>
  Claim C5, amended: for every state file whose content parses, \<open>readEngineState\<close>
  reports "no engine" exactly when the parsed value is not an object with a truthy
  \<open>pid\<close> (present and not \<open>0\<close>, \<open>""\<close>, \<open>false\<close> or \<open>null\<close>) and a \<open>port\<close> that is
  a number. The fields \<open>timestamp\<close> and \<open>version\<close> are not examined.
\<close>

theorem readEngineState_absent_iff:
  assumes "f (getStateFilePath d) = Some (File c)" and "J c = Some v"
  shows "(readEngineState J d f = None) =
     (\<not> (\<exists>kvs p n. v = JObj kvs \<and> map_of kvs ''pid'' = Some p \<and> truthy (Val p)
                \<and> map_of kvs ''port'' = Some (JNum n)))"
  using readEngineState_Some_iff[where f=f and d=d and J=J, OF assms]
  by (metis not_Some_eq)

theorem readEngineState_absent_iff_witness:
  "fs_example text_no_pid (getStateFilePath ''/run'') = Some (File text_no_pid)
   \<and> JSON_parse_examples text_no_pid = Some value_no_pid
   \<and> readEngineState JSON_parse_examples ''/run'' (fs_example text_no_pid) = None"
  using readEngineState_absent_iff[of "fs_example text_no_pid" "''/run''" text_no_pid
      JSON_parse_examples value_no_pid]
  by (simp add: fs_example_def getStateFilePath_def JSON_parse_examples_def text_written_def text_no_pid_def
      text_pid_port_def value_no_pid_def)

text \<open>
  Claim C6: \<open>readEngineState\<close> is total. A missing file, a text \<open>JSON.parse\<close>
  rejects and a parsed object without \<open>pid\<close> or without \<open>port\<close> all give the absent
  result; a file holding a valid record gives that record; and whatever the body of the
  \<open>try\<close> block throws, the function returns the absent result instead of raising.
\<close>

theorem readEngineState_total:
  "(f (getStateFilePath d) = None \<longrightarrow> readEngineState J d f = None)
 \<and> (\<forall>c. f (getStateFilePath d) = Some (File c) \<and> J c = None \<longrightarrow> readEngineState J d f = None)
 \<and> (\<forall>c kvs. f (getStateFilePath d) = Some (File c) \<and> J c = Some (JObj kvs)
        \<and> (map_of kvs ''pid'' = None \<or> map_of kvs ''port'' = None)
      \<longrightarrow> readEngineState J d f = None)
 \<and> (\<forall>c v. f (getStateFilePath d) = Some (File c) \<and> J c = Some v \<and> valid_record v
      \<longrightarrow> readEngineState J d f = Some v)
 \<and> (\<forall>e. readEngineState_try J d f = Inl e \<longrightarrow> readEngineState J d f = None)"
proof (intro conjI allI impI)
  assume "f (getStateFilePath d) = None"
  then show "readEngineState J d f = None"
    by (simp add: readEngineState_def readEngineState_try_def existsSync_def)
next
  fix c assume "f (getStateFilePath d) = Some (File c) \<and> J c = None"
  then show "readEngineState J d f = None"
    by (simp add: readEngineState_def readEngineState_try_def existsSync_def readFileSync_def)
next
  fix c kvs
  assume a: "f (getStateFilePath d) = Some (File c) \<and> J c = Some (JObj kvs)
        \<and> (map_of kvs ''pid'' = None \<or> map_of kvs ''port'' = None)"
  then have c: "f (getStateFilePath d) = Some (File c)" "J c = Some (JObj kvs)" by auto
  from a show "readEngineState J d f = None"
    unfolding readEngineState_parsed[where f=f and d=d and J=J, OF c]
    by (auto split: option.splits)
next
  fix c v
  assume a: "f (getStateFilePath d) = Some (File c) \<and> J c = Some v \<and> valid_record v"
  then have c: "f (getStateFilePath d) = Some (File c)" "J c = Some v" by auto
  from a have "valid_record v" by simp
  then show "readEngineState J d f = Some v"
    unfolding readEngineState_parsed[where f=f and d=d and J=J, OF c]
    by (cases v) (auto split: option.splits json.splits)
next
  fix e assume "readEngineState_try J d f = Inl e"
  then show "readEngineState J d f = None" by (simp add: readEngineState_def)
qed

theorem readEngineState_total_witness:
  "readEngineState JSON_parse_examples ''/run'' Map.empty = None
   \<and> readEngineState JSON_parse_examples ''/run'' (fs_example ''{pid:'') = None
   \<and> readEngineState JSON_parse_examples ''/run'' (fs_example text_no_pid) = None
   \<and> valid_record value_full
   \<and> readEngineState JSON_parse_examples ''/run'' (fs_example text_full) = Some value_full
   \<and> readEngineState_try JSON_parse_examples ''/run'' (fs_example ''null'') = Inl TypeError
   \<and> readEngineState JSON_parse_examples ''/run'' (fs_example ''null'') = None"
proof -
  have 1: "readEngineState JSON_parse_examples ''/run'' Map.empty = None"
    using readEngineState_total[of Map.empty "''/run''" JSON_parse_examples] by simp
  have 2: "readEngineState JSON_parse_examples ''/run'' (fs_example ''{pid:'') = None"
    using readEngineState_total[of "fs_example ''{pid:''" "''/run''" JSON_parse_examples]
    by (simp add: fs_example_def getStateFilePath_def JSON_parse_examples_def text_written_def text_no_pid_def
        text_pid_port_def text_full_def)
  have 3: "readEngineState JSON_parse_examples ''/run'' (fs_example text_no_pid) = None"
    using readEngineState_total[of "fs_example text_no_pid" "''/run''" JSON_parse_examples]
    by (simp add: fs_example_def getStateFilePath_def JSON_parse_examples_def text_written_def text_no_pid_def
        text_pid_port_def value_no_pid_def)
  have 4: "valid_record value_full" by (simp add: value_full_def)
  have 5: "readEngineState JSON_parse_examples ''/run'' (fs_example text_full) = Some value_full"
    using readEngineState_total[of "fs_example text_full" "''/run''" JSON_parse_examples] 4
    by (simp add: fs_example_def getStateFilePath_def JSON_parse_examples_def text_written_def text_no_pid_def
        text_pid_port_def text_full_def)
  have 6: "readEngineState_try JSON_parse_examples ''/run'' (fs_example ''null'') = Inl TypeError"
    by (simp add: readEngineState_try_def fs_example_def getStateFilePath_def existsSync_def
        readFileSync_def JSON_parse_examples_def text_written_def text_no_pid_def text_pid_port_def text_full_def)
  have 7: "readEngineState JSON_parse_examples ''/run'' (fs_example ''null'') = None"
    using readEngineState_total[of "fs_example ''null''" "''/run''" JSON_parse_examples] 6
    by simp
  from 1 2 3 4 5 6 7 show ?thesis by simp
qed

subsection \<open>Writing\<close>

lemma state_paths_differ:
  "getStateFilePath d @ ''.tmp'' \<noteq> getStateFilePath d"
  "d \<noteq> getStateFilePath d"
  by (simp_all add: getStateFilePath_def)

lemma mkdirSync_keeps:
  "mkdirSync f d = Inr f1 \<Longrightarrow> p \<noteq> d \<Longrightarrow> f1 p = f p"
  by (auto simp: mkdirSync_def split: option.splits node.splits)

lemma writeFileSync_keeps:
  "writeFileSync f t data = Inr ws \<Longrightarrow> s \<in> set ws \<Longrightarrow> p \<noteq> t \<Longrightarrow> s p = f p"
  by (auto simp: writeFileSync_def split: option.splits node.splits)

lemma writeFileSync_last:
  "writeFileSync f t data = Inr ws \<Longrightarrow> ws \<noteq> [] \<and> last ws t = Some (File data)"
  by (auto simp: writeFileSync_def last_map split: option.splits node.splits)

lemma renameSync_target:
  "renameSync f a b = Inr f3 \<Longrightarrow> a \<noteq> b \<Longrightarrow> f3 b = f a"
  by (auto simp: renameSync_def split: option.splits node.splits)

lemma writeEngineState_state:
  assumes "s \<in> set (fst (writeEngineState S d st now f))"
  shows "s (getStateFilePath d) = f (getStateFilePath d)
       \<or> s (getStateFilePath d) = Some (File (S (fullState st now)))"
proof -
  let ?p = "getStateFilePath d"
  let ?t = "?p @ ''.tmp''"
  let ?data = "S (fullState st now)"
  show ?thesis
  proof (cases "if \<not> existsSync f d then mkdirSync f d else Inr f")
    case (Inl e)
    with assms show ?thesis by (simp add: writeEngineState_def)
  next
    case (Inr f1)
    then have f1: "f1 ?p = f ?p"
      using mkdirSync_keeps[of f d f1 ?p] state_paths_differ(2)[of d] by (auto split: if_splits)
    show ?thesis
    proof (cases "writeFileSync f1 ?t ?data")
      case (Inl e)
      with Inr assms f1 show ?thesis by (auto simp: writeEngineState_def Let_def)
    next
      case ws: (Inr ws)
      have keep: "\<And>x. x \<in> set ws \<Longrightarrow> x ?p = f ?p"
        using writeFileSync_keeps[OF ws] state_paths_differ(1)[of d] f1 by metis
      show ?thesis
      proof (cases "renameSync (last ws) ?t ?p")
        case (Inl e)
        with Inr ws assms f1 keep show ?thesis by (auto simp: writeEngineState_def Let_def)
      next
        case f3: (Inr f3)
        have "f3 ?p = Some (File ?data)"
          using renameSync_target[OF f3] writeFileSync_last[OF ws] state_paths_differ(1)[of d]
          by simp
        with Inr ws f3 assms f1 keep show ?thesis by (auto simp: writeEngineState_def Let_def)
      qed
    qed
  qed
qed

lemma writeEngineState_done:
  assumes "snd (writeEngineState S d st now f) = None"
  shows "last (fst (writeEngineState S d st now f)) (getStateFilePath d)
           = Some (File (S (fullState st now)))"
proof -
  let ?p = "getStateFilePath d"
  let ?t = "?p @ ''.tmp''"
  let ?data = "S (fullState st now)"
  from assms obtain f1 ws f3 where
    f1: "(if \<not> existsSync f d then mkdirSync f d else Inr f) = Inr f1" and
    ws: "writeFileSync f1 ?t ?data = Inr ws" and
    f3: "renameSync (last ws) ?t ?p = Inr f3"
    by (auto simp: writeEngineState_def Let_def split: sum.splits)
  have "f3 ?p = Some (File ?data)"
    using renameSync_target[OF f3] writeFileSync_last[OF ws] state_paths_differ(1)[of d] by simp
  with f1 ws f3 show ?thesis by (simp add: writeEngineState_def Let_def)
qed

lemma writeEngineState_trace_nonempty: "fst (writeEngineState S d st now f) \<noteq> []"
  by (simp add: writeEngineState_def Let_def split: sum.splits)

lemma readEngineState_full:
  assumes "s (getStateFilePath d) = Some (File (S (fullState st now)))"
    and "J (S (fullState st now)) = Some (fullState st now)" and "pid st \<noteq> 0"
  shows "readEngineState J d s = Some (fullState st now)"
  using assms
  by (simp add: readEngineState_def readEngineState_try_def existsSync_def readFileSync_def
      Let_def fullState_def)

text \<open>
  Claim C2: atomicity of the state write. In every state of the file system that another
  process can see while \<open>writeEngineState\<close> runs (including a run that an exception
  cuts short), the state file is either what it was before the call, so no file when
  there was none, or the complete text of the new record with its four fields, \<open>pid\<close>
  and \<open>port\<close> among them; a prefix of the text is only ever in the temporary file. A
  call that returns without an exception leaves the complete record in place, and a
  reader running \<open>readEngineState\<close> at any of these moments gets what it would have
  got before the call or the complete new record.
\<close>

theorem writeEngineState_atomic:
  "(\<forall>s \<in> set (fst (writeEngineState S d st now f)).
       s (getStateFilePath d) = f (getStateFilePath d)
     \<or> s (getStateFilePath d) = Some (File (S (fullState st now))))
 \<and> (snd (writeEngineState S d st now f) = None \<longrightarrow>
       last (fst (writeEngineState S d st now f)) (getStateFilePath d)
         = Some (File (S (fullState st now))))
 \<and> get_prop (fullState st now) ''pid'' = Inr (Val (JNum (pid st)))
 \<and> get_prop (fullState st now) ''port'' = Inr (Val (JNum (port st)))
 \<and> (J (S (fullState st now)) = Some (fullState st now) \<and> pid st \<noteq> 0 \<longrightarrow>
      (\<forall>s \<in> set (fst (writeEngineState S d st now f)).
          readEngineState J d s = readEngineState J d f
        \<or> readEngineState J d s = Some (fullState st now)))"
proof (intro conjI ballI impI)
  fix s assume "s \<in> set (fst (writeEngineState S d st now f))"
  then show "s (getStateFilePath d) = f (getStateFilePath d)
     \<or> s (getStateFilePath d) = Some (File (S (fullState st now)))"
    by (rule writeEngineState_state)
next
  assume "snd (writeEngineState S d st now f) = None"
  then show "last (fst (writeEngineState S d st now f)) (getStateFilePath d)
         = Some (File (S (fullState st now)))"
    by (rule writeEngineState_done)
next
  show "get_prop (fullState st now) ''pid'' = Inr (Val (JNum (pid st)))"
    by (simp add: fullState_def)
next
  show "get_prop (fullState st now) ''port'' = Inr (Val (JNum (port st)))"
    by (simp add: fullState_def)
next
  fix s
  assume a: "J (S (fullState st now)) = Some (fullState st now) \<and> pid st \<noteq> 0"
    and s: "s \<in> set (fst (writeEngineState S d st now f))"
  from writeEngineState_state[OF s]
  show "readEngineState J d s = readEngineState J d f
        \<or> readEngineState J d s = Some (fullState st now)"
  proof
    assume "s (getStateFilePath d) = f (getStateFilePath d)"
    then have "readEngineState J d s = readEngineState J d f"
      by (rule readEngineState_same_file)
    then show ?thesis ..
  next
    assume "s (getStateFilePath d) = Some (File (S (fullState st now)))"
    with a have "readEngineState J d s = Some (fullState st now)"
      by (intro readEngineState_full[where S=S]) simp_all
    then show ?thesis ..
  qed
qed

theorem writeEngineState_atomic_witness:
  "last (fst (writeEngineState JSON_stringify_examples ''/run'' endpoint_example 1700000000000 Map.empty))
     \<in> set (fst (writeEngineState JSON_stringify_examples ''/run'' endpoint_example 1700000000000 Map.empty))
   \<and> snd (writeEngineState JSON_stringify_examples ''/run'' endpoint_example 1700000000000 Map.empty) = None
   \<and> fullState endpoint_example 1700000000000 = value_full
   \<and> JSON_parse_examples (JSON_stringify_examples value_full) = Some value_full
   \<and> pid endpoint_example \<noteq> 0
   \<and> last (fst (writeEngineState JSON_stringify_examples ''/run'' endpoint_example 1700000000000 Map.empty))
        (getStateFilePath ''/run'') = Some (File text_written)
   \<and> (readEngineState JSON_parse_examples ''/run''
        (last (fst (writeEngineState JSON_stringify_examples ''/run'' endpoint_example 1700000000000 Map.empty)))
         = readEngineState JSON_parse_examples ''/run'' Map.empty
       \<or> readEngineState JSON_parse_examples ''/run''
        (last (fst (writeEngineState JSON_stringify_examples ''/run'' endpoint_example 1700000000000 Map.empty)))
         = Some value_full)"
proof -
  let ?tr = "fst (writeEngineState JSON_stringify_examples ''/run'' endpoint_example 1700000000000 Map.empty)"
  note main = writeEngineState_atomic[of JSON_stringify_examples "''/run''" endpoint_example
      1700000000000 Map.empty JSON_parse_examples]
  have mem: "last ?tr \<in> set ?tr"
    by (rule last_in_set) (rule writeEngineState_trace_nonempty)
  have ok: "snd (writeEngineState JSON_stringify_examples ''/run'' endpoint_example 1700000000000 Map.empty) = None"
    by (simp add: writeEngineState_def existsSync_def mkdirSync_def writeFileSync_def
        renameSync_def getStateFilePath_def Let_def last_map del: upt_Suc)
  have full: "fullState endpoint_example 1700000000000 = value_full"
    by (simp add: fullState_def endpoint_example_def value_full_def)
  have str: "JSON_stringify_examples value_full = text_written"
    by (simp add: JSON_stringify_examples_def)
  have parse: "JSON_parse_examples (JSON_stringify_examples value_full) = Some value_full"
    unfolding str
    by (simp add: JSON_parse_examples_def text_written_def text_full_def text_pid_port_def text_no_pid_def
        text_written_def)
  have pid: "pid endpoint_example \<noteq> 0" by (simp add: endpoint_example_def)
  from main ok have "last ?tr (getStateFilePath ''/run'') = Some (File text_written)"
    unfolding full str by blast
  moreover from main parse pid mem
  have "readEngineState JSON_parse_examples ''/run'' (last ?tr)
         = readEngineState JSON_parse_examples ''/run'' Map.empty
       \<or> readEngineState JSON_parse_examples ''/run'' (last ?tr) = Some value_full"
    unfolding full by blast
  ultimately show ?thesis using mem ok full parse pid by blast
qed

subsection \<open>Polling\<close>

lemma poll_absent:
  "readEngineState J d f = None \<Longrightarrow>
   poll J d f P = Inr (if \<not> strict_eq (lastTimestamp P) (Val (JNum 0))
             then P\<lparr>lastTimestamp := Val (JNum 0), calls := calls P @ [None]\<rparr>
             else P)"
  by (simp add: poll_def)

lemma poll_record:
  assumes "readEngineState J d f = Some st"
  shows "poll J d f P = Inr (if \<not> strict_eq (timestamp_of st) (lastTimestamp P)
                 then P\<lparr>lastTimestamp := timestamp_of st, calls := calls P @ [Some st]\<rparr>
                 else P)"
proof -
  from readEngineState_Some_object[OF assms] obtain kvs where "st = JObj kvs" by blast
  with assms show ?thesis by (simp add: poll_def timestamp_of_def)
qed

lemma poll_returns: "\<exists>P'. poll J d f P = Inr P'"
  by (cases "readEngineState J d f") (simp_all add: poll_absent poll_record)

lemma poll_keeps_invariant:
  assumes "lastTimestamp P = last_notified P" and "poll J d f P = Inr P'"
  shows "lastTimestamp P' = last_notified P'"
proof (cases "readEngineState J d f")
  case None
  with assms show ?thesis by (auto simp: poll_absent last_notified_def split: if_splits)
next
  case (Some st)
  with assms show ?thesis by (auto simp: poll_record last_notified_def split: if_splits)
qed

lemma poll_all_keeps_invariant:
  "lastTimestamp P = last_notified P \<Longrightarrow> poll_all J d fs P = Inr P' \<Longrightarrow>
   lastTimestamp P' = last_notified P'"
proof (induction fs arbitrary: P)
  case Nil then show ?case by simp
next
  case (Cons f fs)
  from poll_returns[of J d f P] obtain Q where Q: "poll J d f P = Inr Q" by blast
  with Cons.prems(2) have "poll_all J d fs Q = Inr P'" by simp
  moreover from poll_keeps_invariant[OF Cons.prems(1) Q]
  have "lastTimestamp Q = last_notified Q" .
  ultimately show ?case by (rule Cons.IH[rotated])
qed

lemma poll_all_returns: "\<exists>P'. poll_all J d fs P = Inr P'"
proof (induction fs arbitrary: P)
  case (Cons f fs)
  from poll_returns[of J d f P] obtain Q where Q: "poll J d f P = Inr Q" by blast
  with Cons.IH[of Q] show ?case by simp
qed simp

lemma pollEngineState_invariant:
  "pollEngineState J d fs = Inr P \<Longrightarrow> lastTimestamp P = last_notified P"
proof -
  have "lastTimestamp poller_init = last_notified poller_init"
    by (simp add: poller_init_def last_notified_def)
  then show "pollEngineState J d fs = Inr P \<Longrightarrow> lastTimestamp P = last_notified P"
    unfolding pollEngineState_def by (rule poll_all_keeps_invariant)
qed

lemma pollEngineState_returns: "\<exists>P. pollEngineState J d fs = Inr P"
  unfolding pollEngineState_def by (rule poll_all_returns)

lemma readEngineState_example_full:
  "readEngineState JSON_parse_examples ''/run'' (fs_example text_full) = Some value_full"
  by (simp add: readEngineState_def readEngineState_try_def getStateFilePath_def existsSync_def
      readFileSync_def JSON_parse_examples_def text_written_def fs_example_def text_full_def text_pid_port_def
      text_no_pid_def value_full_def)

lemma readEngineState_example_none:
  "readEngineState JSON_parse_examples ''/run'' [''/run'' \<mapsto> Dir] = None"
  by (simp add: readEngineState_def readEngineState_try_def getStateFilePath_def existsSync_def)

lemma timestamp_of_value_full: "timestamp_of value_full = Val (JNum 1700000000000)"
  by (simp add: timestamp_of_def value_full_def)

text \<open>
  Claim C9, as the specification states it, compares the timestamp read with that of the
  last record the callback was invoked for. The loop resets \<open>lastTimestamp\<close> to 0 when
  it reports the removal of the file, so a record that comes back with the timestamp it
  had before is notified again: three polls that see the record, no file, and the
  same record again invoke the callback three times.
\<close>

theorem pollEngineState_renotifies_after_removal:
  "pollEngineState JSON_parse_examples ''/run''
      [fs_example text_full, [''/run'' \<mapsto> Dir], fs_example text_full]
   = Inr \<lparr>lastTimestamp = Val (JNum 1700000000000),
          calls = [Some value_full, None, Some value_full]\<rparr>"
  by (simp add: pollEngineState_def poller_init_def poll_record poll_absent
      readEngineState_example_full readEngineState_example_none timestamp_of_value_full)

text \<open>
  Claim C9, amended: after any number of polls, what a poll does is fixed by the state
  read and by a reference timestamp, which is the timestamp of the record passed to the
  most recent callback invocation, and 0 before any invocation and after an
  invocation with the absent result (\<open>last_notified\<close>; it is what \<open>lastTimestamp\<close>
  holds). When a record is read, the callback is invoked with it exactly when its timestamp is not
  \<open>===\<close> to the reference, which then becomes that timestamp. When nothing is read,
  the callback is invoked with the absent result exactly when the reference is not
  \<open>===\<close> to 0, and the reference becomes 0: once per disappearance, and a record that
  comes back afterwards is notified again, whatever its timestamp but 0. In every
  other case the callback is not invoked and nothing changes. A poll never raises.
\<close>

theorem poll_notifies_exactly:
  assumes "pollEngineState J d fs = Inr P"
  shows "lastTimestamp P = last_notified P
       \<and> poll J d f P =
           Inr (case readEngineState J d f of
                  Some st \<Rightarrow>
                    if strict_eq (timestamp_of st) (last_notified P) then P
                    else P\<lparr>lastTimestamp := timestamp_of st, calls := calls P @ [Some st]\<rparr>
                | None \<Rightarrow>
                    if strict_eq (last_notified P) (Val (JNum 0)) then P
                    else P\<lparr>lastTimestamp := Val (JNum 0), calls := calls P @ [None]\<rparr>)"
proof -
  note inv = pollEngineState_invariant[OF assms]
  show ?thesis
  proof (cases "readEngineState J d f")
    case None
    with inv show ?thesis by (simp add: poll_absent)
  next
    case (Some st)
    with inv show ?thesis by (simp add: poll_record)
  qed
qed

theorem poll_notifies_exactly_witness:
  "pollEngineState JSON_parse_examples ''/run'' [fs_example text_full]
     = Inr \<lparr>lastTimestamp = Val (JNum 1700000000000), calls = [Some value_full]\<rparr>
   \<and> last_notified \<lparr>lastTimestamp = Val (JNum 1700000000000), calls = [Some value_full]\<rparr>
     = Val (JNum 1700000000000)
   \<and> poll JSON_parse_examples ''/run'' (fs_example text_full)
        \<lparr>lastTimestamp = Val (JNum 1700000000000), calls = [Some value_full]\<rparr>
     = Inr \<lparr>lastTimestamp = Val (JNum 1700000000000), calls = [Some value_full]\<rparr>
   \<and> poll JSON_parse_examples ''/run'' [''/run'' \<mapsto> Dir]
        \<lparr>lastTimestamp = Val (JNum 1700000000000), calls = [Some value_full]\<rparr>
     = Inr \<lparr>lastTimestamp = Val (JNum 0), calls = [Some value_full, None]\<rparr>"
proof -
  have run: "pollEngineState JSON_parse_examples ''/run'' [fs_example text_full]
     = Inr \<lparr>lastTimestamp = Val (JNum 1700000000000), calls = [Some value_full]\<rparr>"
    by (simp add: pollEngineState_def poller_init_def poll_record
        readEngineState_example_full timestamp_of_value_full)
  have ref: "last_notified \<lparr>lastTimestamp = Val (JNum 1700000000000), calls = [Some value_full]\<rparr>
     = Val (JNum 1700000000000)"
    by (simp add: last_notified_def timestamp_of_value_full)
  from poll_notifies_exactly[OF run, of "fs_example text_full"]
  have same: "poll JSON_parse_examples ''/run'' (fs_example text_full)
        \<lparr>lastTimestamp = Val (JNum 1700000000000), calls = [Some value_full]\<rparr>
     = Inr \<lparr>lastTimestamp = Val (JNum 1700000000000), calls = [Some value_full]\<rparr>"
    by (simp add: ref readEngineState_example_full timestamp_of_value_full)
  from poll_notifies_exactly[OF run, of "[''/run'' \<mapsto> Dir]"]
  have removed: "poll JSON_parse_examples ''/run'' [''/run'' \<mapsto> Dir]
        \<lparr>lastTimestamp = Val (JNum 1700000000000), calls = [Some value_full]\<rparr>
     = Inr \<lparr>lastTimestamp = Val (JNum 0), calls = [Some value_full, None]\<rparr>"
    by (simp add: ref readEngineState_example_none)
  from run ref same removed show ?thesis by simp
qed

section \<open>Properties of the link to the engine\<close>

subsection \<open>Framing\<close>

lemma indexOf_less: "indexOf buf c = Some i \<Longrightarrow> i < length buf"
  by (induction buf arbitrary: i) (auto split: if_splits)

lemma indexOf_append:
  "indexOf (b @ t) c =
     (case indexOf b c of Some i \<Rightarrow> Some i | None \<Rightarrow> map_option (\<lambda>j. length b + j) (indexOf t c))"
proof (induction b)
  case Nil
  show ?case by (cases "indexOf t c") simp_all
next
  case (Cons a b)
  then show ?case
    by (cases "indexOf b c"; cases "indexOf t c") (simp_all split: option.splits)
qed

lemma process_lines_no_newline:
  "indexOf buf 0x0A = None \<Longrightarrow> process_lines J buf h = (buf, h)"
  by (subst process_lines.simps) simp

lemma process_lines_result_no_newline:
  "indexOf (fst (process_lines J buf h)) 0x0A = None"
proof (induction J buf h rule: process_lines.induct)
  case (1 J buf h)
  show ?case
  proof (cases "indexOf buf 0x0A")
    case None
    then show ?thesis by (simp add: process_lines_no_newline)
  next
    case (Some i)
    with 1 show ?thesis by (subst process_lines.simps) simp
  qed
qed

lemma process_lines_append:
  "process_lines J (b @ t) h =
   process_lines J (fst (process_lines J b h) @ t) (snd (process_lines J b h))"
proof (induction J b h rule: process_lines.induct)
  case (1 J buf h)
  show ?case
  proof (cases "indexOf buf 0x0A")
    case None
    then show ?thesis by (simp add: process_lines_no_newline)
  next
    case (Some i)
    then have i: "i < length buf" by (rule indexOf_less)
    have "process_lines J (buf @ t) h =
          process_lines J (drop (i + 1) buf @ t) (handle_line J (take i buf) h)"
      using Some i by (subst process_lines.simps) (simp add: indexOf_append)
    also have "\<dots> = process_lines J
         (fst (process_lines J (drop (i + 1) buf) (handle_line J (take i buf) h)) @ t)
         (snd (process_lines J (drop (i + 1) buf) (handle_line J (take i buf) h)))"
      using "1.IH"[OF Some] .
    also have "process_lines J (drop (i + 1) buf) (handle_line J (take i buf) h)
        = process_lines J buf h"
      using Some by (subst (2) process_lines.simps) simp
    finally show ?thesis .
  qed
qed

lemma fold_text_chunks:
  "indexOf b 0x0A = None \<Longrightarrow>
   fold (\<lambda>t r. process_lines J (fst r @ t) (snd r)) ts (b, h) = process_lines J (b @ concat ts) h"
proof (induction ts arbitrary: b h)
  case Nil
  then show ?case by (simp add: process_lines_no_newline)
next
  case (Cons t ts)
  let ?r = "process_lines J (b @ t) h"
  have "fold (\<lambda>t r. process_lines J (fst r @ t) (snd r)) (t # ts) (b, h)
        = fold (\<lambda>t r. process_lines J (fst r @ t) (snd r)) ts (fst ?r, snd ?r)"
    by simp
  also have "\<dots> = process_lines J (fst ?r @ concat ts) (snd ?r)"
    by (rule Cons.IH) (rule process_lines_result_no_newline)
  also have "\<dots> = process_lines J ((b @ t) @ concat ts) h"
    by (rule process_lines_append[symmetric])
  finally show ?case by simp
qed

lemma fold_feed_map:
  "fold (\<lambda>data r. process_lines J (fst r @ toString data) (snd r)) chunks r0
   = fold (\<lambda>t r. process_lines J (fst r @ t) (snd r)) (map toString chunks) r0"
  by (simp add: fold_map comp_def)

lemma feed_text: "feed J chunks = process_lines J (concat (map toString chunks)) []"
  unfolding feed_def fold_feed_map
  using fold_text_chunks[of "[]" J "map toString chunks" "[]"] by simp

lemma feed_whole:
  "toString (concat chunks) = concat (map toString chunks) \<Longrightarrow>
   feed J chunks = feed J [concat chunks]"
  by (simp add: feed_text)

lemma utf8_ascii:
  "\<forall>b \<in> set bs. b \<le> 0x7F \<Longrightarrow> utf8_from 0 0 0x80 0xBF bs = bs"
  by (induction bs) auto

lemma utf16_ascii: "\<forall>b \<in> set bs. b \<le> (0x7F::nat) \<Longrightarrow> concat (map utf16 bs) = bs"
  by (induction bs) (auto simp: utf16_def)

lemma toString_ascii:
  assumes "\<forall>b \<in> set data. b \<le> 0x7F"
  shows "toString data = map unat data"
proof -
  have "\<forall>b \<in> set (map unat data). b \<le> 0x7F"
    using assms by (auto simp: word_le_nat_alt)
  then have "utf8_from 0 0 0x80 0xBF (map unat data) = map unat data"
    and "concat (map utf16 (map unat data)) = map unat data"
    by (rule utf8_ascii, rule utf16_ascii)
  then show ?thesis unfolding toString_def by simp
qed

lemma feed_ascii:
  assumes "\<forall>data \<in> set chunks. \<forall>b \<in> set data. b \<le> 0x7F"
  shows "feed J chunks = feed J [concat chunks]"
proof (rule feed_whole)
  have "toString (concat chunks) = map unat (concat chunks)"
    using assms by (intro toString_ascii) auto
  also have "\<dots> = concat (map (map unat) chunks)" by (simp add: map_concat)
  also have "\<dots> = concat (map toString chunks)"
    using assms by (intro arg_cong[where f=concat] map_cong refl toString_ascii[symmetric]) auto
  finally show "toString (concat chunks) = concat (map toString chunks)" .
qed


text \<open>
  Claim C1: chunking must not change what the data handler parses. The handler decodes
  each chunk by itself (\<open>data.toString()\<close>), so a character whose bytes fall into two
  chunks is lost: each part becomes U+FFFD. The line
  \<open>{"type":"banks","banks":["cafe"]}\<close>, its last letter an e with an acute accent whose two bytes \<open>C3 A9\<close>
  are split between two reads is handed to \<open>JSON.parse\<close> with two replacement
  characters in place of the letter, and the bytes \<open>C3 A9\<close> alone leave a different
  buffer when they arrive separately. (\<open>JSON.parse\<close> is taken as \<open>Some\<close> here, so that
  \<open>handled\<close> shows the lines it is given.) Where the chunks decode piecewise, which
  includes every ASCII stream, the chunking does not matter: \<open>feed_whole\<close>,
  \<open>feed_ascii\<close>.
\<close>

theorem on_data_splits_character:
  \<open>handled (on_data Some (0xA9 # ascii_bytes ''"]}'' @ [0x0A])
      (on_data Some (ascii_bytes ''{"type":"banks","banks":["caf'' @ [0xC3]) link_init))
     = [ascii ''{"type":"banks","banks":["caf'' @ [0xFFFD, 0xFFFD] @ ascii ''"]}'']
   \<and> handled (on_data Some
        (ascii_bytes ''{"type":"banks","banks":["caf'' @ [0xC3] @ 0xA9 # ascii_bytes ''"]}'' @ [0x0A])
        link_init)
     = [ascii ''{"type":"banks","banks":["caf'' @ [0xE9] @ ascii ''"]}'']
   \<and> handled (on_data Some (0xA9 # ascii_bytes ''"]}'' @ [0x0A])
      (on_data Some (ascii_bytes ''{"type":"banks","banks":["caf'' @ [0xC3]) link_init))
     \<noteq> handled (on_data Some
        (ascii_bytes ''{"type":"banks","banks":["caf'' @ [0xC3] @ 0xA9 # ascii_bytes ''"]}'' @ [0x0A])
        link_init)
   \<and> engineBuffer (on_data Some [0xA9] (on_data Some [0xC3] link_init)) = [0xFFFD, 0xFFFD]
   \<and> engineBuffer (on_data Some [0xC3, 0xA9] link_init) = [0xE9]\<close>
  by (simp add: on_data_def link_init_def toString_def utf16_def process_lines.simps
      handle_line_def trim_truthy_def is_js_space_def ascii_def ascii_bytes_def Let_def)

subsection \<open>Closing a connection\<close>

lemma handle_line_prefix: "handle_line J l (h0 @ h) = h0 @ handle_line J l h"
  by (simp add: handle_line_def split: option.splits)

lemma process_lines_prefix:
  "process_lines J buf (h0 @ h) =
     (fst (process_lines J buf h), h0 @ snd (process_lines J buf h))"
proof (induction J buf h rule: process_lines.induct)
  case (1 J buf h)
  show ?case
  proof (cases "indexOf buf 0x0A")
    case None
    then show ?thesis by (simp add: process_lines_no_newline)
  next
    case (Some i)
    have "process_lines J buf (h0 @ h)
          = process_lines J (drop (i + 1) buf) (h0 @ handle_line J (take i buf) h)"
      using Some by (subst process_lines.simps) (simp add: handle_line_prefix)
    also have "\<dots> = (fst (process_lines J (drop (i + 1) buf) (handle_line J (take i buf) h)),
                     h0 @ snd (process_lines J (drop (i + 1) buf) (handle_line J (take i buf) h)))"
      using "1.IH"[OF Some] .
    also have "process_lines J (drop (i + 1) buf) (handle_line J (take i buf) h)
        = process_lines J buf h"
      using Some by (subst (2) process_lines.simps) simp
    finally show ?thesis .
  qed
qed

lemma fold_chunks_prefix:
  "fold (\<lambda>data r. process_lines J (fst r @ toString data) (snd r)) chunks (b, h0 @ h) =
   (fst (fold (\<lambda>data r. process_lines J (fst r @ toString data) (snd r)) chunks (b, h)),
    h0 @ snd (fold (\<lambda>data r. process_lines J (fst r @ toString data) (snd r)) chunks (b, h)))"
proof (induction chunks arbitrary: b h)
  case Nil
  show ?case by simp
next
  case (Cons c cs)
  show ?case
    by (simp add: process_lines_prefix[of J _ h0 h] Cons.IH)
qed

lemma on_data_frame:
  "uncaught (on_data J data L) = uncaught L" "sockets (on_data J data L) = sockets L"
  by (simp_all add: on_data_def Let_def)

lemma status_of_on_data: "status_of (on_data J data L) s = status_of L s"
  by (simp add: status_of_def on_data_frame)

lemma run_data:
  "uncaught L = None \<Longrightarrow> status_of L s = Some Open \<Longrightarrow>
   run J (map (Data s) chunks) L =
     L\<lparr>engineBuffer :=
         fst (fold (\<lambda>data r. process_lines J (fst r @ toString data) (snd r)) chunks
               (engineBuffer L, handled L)),
       handled :=
         snd (fold (\<lambda>data r. process_lines J (fst r @ toString data) (snd r)) chunks
               (engineBuffer L, handled L))\<rparr>"
proof (induction chunks arbitrary: L)
  case Nil
  show ?case by (simp add: run_def)
next
  case (Cons c cs)
  have st: "step J (Data s c) L = on_data J c L" using Cons.prems by simp
  have "run J (map (Data s) (c # cs)) L = run J (map (Data s) cs) (on_data J c L)"
    by (simp add: run_def st del: step.simps)
  also have "\<dots> = (on_data J c L)\<lparr>engineBuffer :=
         fst (fold (\<lambda>data r. process_lines J (fst r @ toString data) (snd r)) cs
               (engineBuffer (on_data J c L), handled (on_data J c L))),
       handled :=
         snd (fold (\<lambda>data r. process_lines J (fst r @ toString data) (snd r)) cs
               (engineBuffer (on_data J c L), handled (on_data J c L)))\<rparr>"
    using Cons.prems by (intro Cons.IH) (simp_all add: on_data_frame status_of_on_data)
  finally show ?case by (simp add: on_data_def Let_def)
qed

lemma status_of_close_other:
  "s' \<noteq> s \<Longrightarrow> status_of (on_close (set_status s st L)) s' = status_of L s'"
  by (simp add: status_of_def on_close_def set_status_def)


text \<open>
  What the \<open>close\<close> handler achieves: once a socket's \<open>close\<close> event is handled the
  accumulator is empty, and the chunks that another socket, open at that moment,
  delivers from then on leave the buffer and add the messages that the same chunks give
  when fed to an empty buffer.
\<close>

lemma close_resets_buffer:
  assumes "uncaught L = None" and "status_of L s \<noteq> None" and "status_of L s \<noteq> Some Closed"
  shows "engineBuffer (step J (Close s) L) = []
       \<and> (\<forall>s' chunks. status_of L s' = Some Open \<and> s' \<noteq> s \<longrightarrow>
            engineBuffer (run J (map (Data s') chunks) (step J (Close s) L)) = fst (feed J chunks)
          \<and> handled (run J (map (Data s') chunks) (step J (Close s) L))
              = handled L @ snd (feed J chunks))"
proof -
  let ?L' = "on_close (set_status s Closed L)"
  have st: "step J (Close s) L = ?L'" using assms by simp
  have buf: "engineBuffer ?L' = []" and h: "handled ?L' = handled L"
    and u: "uncaught ?L' = None"
    using assms(1) by (simp_all add: on_close_def set_status_def)
  {
    fix s' chunks
    assume a: "status_of L s' = Some Open \<and> s' \<noteq> s"
    then have "status_of ?L' s' = Some Open" by (simp add: status_of_close_other)
    from run_data[OF u this, of J chunks]
    have r: "run J (map (Data s') chunks) ?L' =
      ?L'\<lparr>engineBuffer :=
         fst (fold (\<lambda>data r. process_lines J (fst r @ toString data) (snd r)) chunks
               ([], handled L)),
       handled :=
         snd (fold (\<lambda>data r. process_lines J (fst r @ toString data) (snd r)) chunks
               ([], handled L))\<rparr>"
      by (simp only: buf h)
    have "fold (\<lambda>data r. process_lines J (fst r @ toString data) (snd r)) chunks ([], handled L)
         = (fst (feed J chunks), handled L @ snd (feed J chunks))"
      using fold_chunks_prefix[of J chunks "[]" "handled L" "[]"] by (simp add: feed_def)
    with r have "engineBuffer (run J (map (Data s') chunks) ?L') = fst (feed J chunks)
          \<and> handled (run J (map (Data s') chunks) ?L') = handled L @ snd (feed J chunks)"
      by simp
  }
  then show ?thesis unfolding st using buf by blast
qed


subsection \<open>Reconnecting\<close>

lemma fire_idle: "\<not> pending (timers L ! t) \<or> clock L < due (timers L ! t) \<Longrightarrow> fire t L = L"
  by (auto simp: fire_def)

lemma fold_fire_idle:
  "\<forall>t \<in> set ts. \<not> pending (timers L ! t) \<or> clock L < due (timers L ! t) \<Longrightarrow> fold fire ts L = L"
  by (induction ts) (simp_all add: fire_idle)

lemma elapse_idle:
  assumes "uncaught L = None"
    and "\<forall>t < length (timers L). \<not> pending (timers L ! t) \<or> clock L + ms < due (timers L ! t)"
  shows "step J (Elapse ms) L = L\<lparr>clock := clock L + ms\<rparr>"
proof -
  have "fold fire [0..<length (timers L)] (L\<lparr>clock := clock L + ms\<rparr>) = L\<lparr>clock := clock L + ms\<rparr>"
    by (rule fold_fire_idle) (use assms(2) in simp)
  with assms(1) show ?thesis by simp
qed

lemma set_live: "set (live L) = {i. status_of L i = Some Connecting \<or> status_of L i = Some Open}"
  by (auto simp: live_def status_of_def)

lemma live_le1:
  assumes "\<And>i. status_of L i = Some Connecting \<or> status_of L i = Some Open \<Longrightarrow> i = k"
  shows "length (live L) \<le> 1"
proof -
  have d: "distinct (live L)" by (simp add: live_def)
  have "set (live L) \<subseteq> {k}" using assms by (auto simp: set_live)
  then have "card (set (live L)) \<le> card {k}" by (intro card_mono) auto
  with d show ?thesis by (simp add: distinct_card)
qed

lemma status_of_sockets_cong: "sockets L' = sockets L \<Longrightarrow> status_of L' i = status_of L i"
  by (simp add: status_of_def)

lemma status_of_update:
  "sockets L' = (sockets L)[s := (sockets L ! s)\<lparr>status := st\<rparr>] \<Longrightarrow>
   status_of L' i = (if i = s \<and> s < length (sockets L) then Some st else status_of L i)"
  by (auto simp: status_of_def)

lemma status_of_append:
  "sockets L' = xs @ [x] \<Longrightarrow>
   status_of L' i = (if i < length xs then Some (status (xs ! i))
                     else if i = length xs then Some (status x) else None)"
  by (auto simp: status_of_def nth_append)

lemma reconnect_scenario:
  fixes L :: "'m link" and g d1 d2 e s :: nat and st :: endpoint
  assumes u: "uncaught L = None"
    and op: "status_of L s = Some Open"
    and only: "\<And>i. status_of L i = Some Connecting \<or> status_of L i = Some Open \<Longrightarrow> i = s"
    and idle: "\<forall>t < length (timers L). \<not> pending (timers L ! t)"
    and st: "0 < port st" "legal_port (port st)"
    and d: "d1 < 500" "500 \<le> d1 + d2"
  defines "olds \<equiv> (sockets L)[s := (sockets L ! s)\<lparr>status := Closed\<rparr>]"
  defines "new \<equiv> \<lparr>remote_port = port st, status = Connecting, created = clock L + g + d1 + d2\<rparr>"
  defines "evs \<equiv> [Error s, Close s, Elapse g, Watch (Some st) True, Elapse d1, Elapse d2, Elapse e]"
  shows "sockets (run J (take 5 evs) L) = olds"
    and "sockets (run J (take 6 evs) L) = olds @ [new]"
    and "sockets (run J evs L) = olds @ [new]"
    and "\<forall>L' \<in> set (states J evs L). length (live L') \<le> 1"
proof -
  have s_lt: "s < length (sockets L)" using op by (auto simp: status_of_def split: if_splits)
  define T where "T = (case reconnectTimer L of
       Some t \<Rightarrow> (timers L)[t := (timers L ! t)\<lparr>pending := False\<rparr>] | None \<Rightarrow> timers L)"
  have T_len: "length T = length (timers L)" by (simp add: T_def split: option.splits)
  have T_idle: "\<And>t. t < length T \<Longrightarrow> \<not> pending (T ! t)"
  proof -
    fix t assume "t < length T"
    then have t: "t < length (timers L)" by (simp add: T_len)
    with idle have "\<not> pending (timers L ! t)" by simp
    with t show "\<not> pending (T ! t)"
    proof (cases "reconnectTimer L")
      case None
      with \<open>\<not> pending (timers L ! t)\<close> show ?thesis by (simp add: T_def)
    next
      case (Some a)
      with t \<open>\<not> pending (timers L ! t)\<close> show ?thesis
        by (cases "a = t") (simp_all add: T_def)
    qed
  qed
  define tm where "tm = \<lparr>due = clock L + g + 500, target = st, pending = True\<rparr>"
  define L1 where "L1 = L\<lparr>engineSocket := None,
      sockets := (sockets L)[s := (sockets L ! s)\<lparr>status := Destroyed\<rparr>]\<rparr>"
  define L2 where "L2 = L\<lparr>engineSocket := None, engineBuffer := [], sockets := olds\<rparr>"
  define L3 where "L3 = L2\<lparr>clock := clock L + g\<rparr>"
  define L4 where "L4 = L3\<lparr>reconnectTimer := Some (length T), timers := T @ [tm]\<rparr>"
  define L5 where "L5 = L4\<lparr>clock := clock L + g + d1\<rparr>"
  define L6 where "L6 = L5\<lparr>clock := clock L + g + d1 + d2,
      timers := T @ [tm\<lparr>pending := False\<rparr>], sockets := olds @ [new]\<rparr>"
  define L7 where "L7 = L6\<lparr>clock := clock L + g + d1 + d2 + e\<rparr>"
  have 1: "step J (Error s) L = L1"
    using u op by (simp add: on_error_def set_status_def L1_def)
  have "status_of L1 s = Some Destroyed"
    using s_lt by (simp add: status_of_def L1_def)
  then have 2: "step J (Close s) L1 = L2"
    using u s_lt by (simp add: on_close_def set_status_def L1_def L2_def olds_def)
  have 3: "step J (Elapse g) L2 = L3"
    unfolding L3_def 
    by (subst elapse_idle) (use u idle in \<open>simp_all add: L2_def\<close>)
  have 4: "step J (Watch (Some st) True) L3 = L4"
    using u st(1)
    by (cases "reconnectTimer L")
       (simp_all add: on_watch_def clearTimeout_def L3_def L2_def L4_def T_def tm_def Let_def)
  have 5: "step J (Elapse d1) L4 = L5"
    unfolding L5_def
    by (subst elapse_idle)
       (use u d(1) T_idle in \<open>auto simp add: L4_def L3_def L2_def tm_def nth_append less_Suc_eq\<close>)
  have 6: "step J (Elapse d2) L5 = L6"
  proof -
    let ?M = "L5\<lparr>clock := clock L5 + d2\<rparr>"
    have len: "length (timers L5) = Suc (length T)"
      by (simp add: L5_def L4_def)
    have first: "fold fire [0..<length T] ?M = ?M"
      by (rule fold_fire_idle)
         (use T_idle in \<open>auto simp: L5_def L4_def nth_append\<close>)
    have last: "fire (length T) ?M = L6"
      using u st(2) d(2)
      by (simp add: fire_def tryConnect_def clearTimeout_def L5_def L4_def L3_def L2_def L6_def
          tm_def new_def Let_def)
    have "fold fire [0..<length (timers L5)] ?M = L6"
      unfolding len by (simp add: first last del: fire_def)
    moreover have "uncaught L5 = None" using u by (simp add: L5_def L4_def L3_def L2_def)
    ultimately show ?thesis by simp
  qed
  have 7: "step J (Elapse e) L6 = L7"
    unfolding L7_def
    by (subst elapse_idle)
       (use u T_idle in \<open>auto simp add: L6_def L5_def L4_def L3_def L2_def nth_append less_Suc_eq\<close>)
  have run5: "run J (take 5 evs) L = L5"
    by (simp add: evs_def run_def 1 2 3 4 5 del: step.simps)
  have run6: "run J (take 6 evs) L = L6"
    by (simp add: evs_def run_def 1 2 3 4 5 6 del: step.simps)
  have run7: "run J evs L = L7"
    by (simp add: evs_def run_def 1 2 3 4 5 6 7 del: step.simps)
  show "sockets (run J (take 5 evs) L) = olds"
    unfolding run5 by (simp add: L5_def L4_def L3_def L2_def)
  show "sockets (run J (take 6 evs) L) = olds @ [new]"
    unfolding run6 by (simp add: L6_def)
  show "sockets (run J evs L) = olds @ [new]"
    unfolding run7 by (simp add: L7_def L6_def)
  have sts: "states J evs L = [L, L1, L2, L3, L4, L5, L6, L7]"
    by (simp add: evs_def 1 2 3 4 5 6 7 del: step.simps)
  have l0: "length (live L) \<le> 1" using only by (rule live_le1)
  have dead: "\<And>L'::'m link. sockets L' = (sockets L)[s := (sockets L ! s)\<lparr>status := Destroyed\<rparr>]
                 \<or> sockets L' = olds \<Longrightarrow> length (live L') \<le> 1"
  proof -
    fix L' :: "'m link"
    assume a: "sockets L' = (sockets L)[s := (sockets L ! s)\<lparr>status := Destroyed\<rparr>]
                 \<or> sockets L' = olds"
    show "length (live L') \<le> 1"
    proof (rule live_le1[where k=s])
      fix i assume "status_of L' i = Some Connecting \<or> status_of L' i = Some Open"
      with a only[of i] show "i = s"
        unfolding olds_def by (auto simp: status_of_update split: if_splits)
    qed
  qed
  have fresh: "\<And>L'::'m link. sockets L' = olds @ [new] \<Longrightarrow> length (live L') \<le> 1"
  proof -
    fix L' :: "'m link"
    assume a: "sockets L' = olds @ [new]"
    show "length (live L') \<le> 1"
    proof (rule live_le1[where k="length olds"])
      fix i assume b: "status_of L' i = Some Connecting \<or> status_of L' i = Some Open"
      show "i = length olds"
      proof (rule ccontr)
        assume ne: "i \<noteq> length olds"
        with b a have i: "i < length olds" 
          and c: "status (olds ! i) = Connecting \<or> status (olds ! i) = Open"
          by (auto simp: status_of_append split: if_splits)
        from i have il: "i < length (sockets L)" by (simp add: olds_def)
        show False
        proof (cases "i = s")
          case True
          with c s_lt show False by (simp add: olds_def)
        next
          case False
          with c il have "status_of L i = Some Connecting \<or> status_of L i = Some Open"
            by (simp add: olds_def status_of_def)
          with only False show False by blast
        qed
      qed
    qed
  qed
  show "\<forall>L' \<in> set (states J evs L). length (live L') \<le> 1"
    unfolding sts
    using l0 dead[of L1] dead[of L2] dead[of L3] dead[of L4] dead[of L5] fresh[of L6] fresh[of L7]
    by (simp add: L1_def L2_def L3_def L4_def L5_def L6_def L7_def)
qed


text \<open>
  Claim C3: the reconnect discipline. In the scenario itself the client does what the
  claim says (\<open>reconnect_scenario\<close>: one attempt, to the new port, not before the
  500 ms have passed, the failed socket closed, never two live sockets). But \<open>tryConnect\<close> only
  destroys the socket \<open>engineSocket\<close> refers to, and \<open>engineSocket\<close> is set by the
  connection callback and cleared by the \<open>close\<close> handler of any socket. So a socket
  that is still connecting when the next attempt starts is left alone, and so is an open
  socket after the \<open>close\<close> event of its predecessor has cleared \<open>engineSocket\<close>: in both
  runs below two sockets end up open at once.
\<close>

theorem tryConnect_leaves_live_socket:
  "map status (sockets (run Some
      [Watch (Some endpoint_B) True, Elapse 500, Watch (Some endpoint_C) True, Elapse 500,
       Connected 0, Connected 1] link_init)) = [Open, Open]
   \<and> live (run Some
      [Watch (Some endpoint_B) True, Elapse 500, Watch (Some endpoint_C) True, Elapse 500,
       Connected 0, Connected 1] link_init) = [0, 1]
   \<and> map status (sockets (run Some
      [Watch (Some endpoint_example) True, Elapse 500, Connected 0,
       Watch (Some endpoint_B) True, Elapse 500, Connected 1, Close 0,
       Watch (Some endpoint_C) True, Elapse 500, Connected 2] link_init))
     = [Closed, Open, Open]"
  by (simp add: run_def link_init_def on_watch_def endpoint_B_def endpoint_C_def
      endpoint_example_def fire_def tryConnect_def clearTimeout_def legal_port_def status_of_def
      set_status_def on_connect_def on_close_def destroy_def live_def Let_def)

text \<open>
  Claim C10: partial frames never cross connections. The buffer is one variable
  shared by all sockets, and a socket that \<open>tryConnect\<close> leaves open (the runs shown for
  claim C3) never emits the \<open>close\<close> event that would empty it. In the run below
  socket 1 is open and has delivered the beginning \<open>{"type":"sam\<close> of a message when
  the next record arrives; socket 2 is created beside it and delivers \<open>[1,2]\<close> and a
  newline, which alone is the message \<open>[1,2]\<close>. The line handed to \<open>JSON.parse\<close>
  (taken as \<open>Some\<close>, so that \<open>handled\<close> shows it) is made of the bytes of both
  connections.
\<close>

theorem engineBuffer_crosses_connections:
  \<open>handled (run Some
      [Watch (Some endpoint_example) True, Elapse 500, Connected 0,
       Watch (Some endpoint_B) True, Elapse 500, Connected 1, Close 0,
       Data 1 (ascii_bytes ''{"type":"sam''),
       Watch (Some endpoint_C) True, Elapse 500, Connected 2,
       Data 2 (ascii_bytes ''[1,2]'' @ [0x0A])] link_init)
     = [ascii ''{"type":"sam[1,2]'']
   \<and> map status (sockets (run Some
      [Watch (Some endpoint_example) True, Elapse 500, Connected 0,
       Watch (Some endpoint_B) True, Elapse 500, Connected 1, Close 0,
       Data 1 (ascii_bytes ''{"type":"sam''),
       Watch (Some endpoint_C) True, Elapse 500, Connected 2,
       Data 2 (ascii_bytes ''[1,2]'' @ [0x0A])] link_init))
     = [Closed, Open, Open]
   \<and> engineBuffer (run Some
      [Watch (Some endpoint_example) True, Elapse 500, Connected 0,
       Watch (Some endpoint_B) True, Elapse 500, Connected 1, Close 0,
       Data 1 (ascii_bytes ''{"type":"sam''),
       Watch (Some endpoint_C) True, Elapse 500, Connected 2] link_init)
     = ascii ''{"type":"sam''
   \<and> feed Some ((ascii_bytes ''[1,2]'' @ [0x0A]) # []) = ([], [ascii ''[1,2]''])\<close>
  by (simp add: run_def link_init_def on_watch_def endpoint_B_def endpoint_C_def
      endpoint_example_def fire_def tryConnect_def clearTimeout_def legal_port_def status_of_def
      set_status_def on_connect_def on_close_def destroy_def on_data_def feed_def toString_def
      utf16_def process_lines.simps handle_line_def trim_truthy_def is_js_space_def ascii_def
      ascii_bytes_def Let_def)

section \<open>Properties of the relay\<close>

subsection \<open>The controls of a datagram\<close>

lemma map_of_set_key: "map_of (set_key k v kvs) = (map_of kvs)(k \<mapsto> v)"
  by (induction kvs) (auto simp: fun_eq_iff)

lemma keys_set_key: "fst ` set (set_key k v kvs) = insert k (fst ` set kvs)"
proof (induction kvs)
  case Nil
  show ?case by simp
next
  case (Cons p kvs)
  obtain k' v' where p: "p = (k', v')" by (cases p)
  show ?case
  proof (cases "k' = k")
    case True
    then show ?thesis by (simp add: p)
  next
    case False
    then show ?thesis using Cons.IH by (simp add: p insert_commute)
  qed
qed

lemma distinct_set_key: "distinct (map fst kvs) \<Longrightarrow> distinct (map fst (set_key k v kvs))"
proof (induction kvs)
  case Nil
  show ?case by simp
next
  case (Cons p kvs)
  obtain k' v' where p: "p = (k', v')" by (cases p)
  from Cons show ?case
    using keys_set_key[of k v kvs] by (auto simp: p)
qed

lemma map_of_fold_set_key:
  "map_of (fold (\<lambda>(k, v). set_key k v) value base) = map_of base ++ map_of (rev value)"
proof (induction "value" arbitrary: base)
  case Nil
  show ?case by simp
next
  case (Cons p vs)
  obtain k v where p: "p = (k, v)" by (cases p)
  have "map_of (fold (\<lambda>(k, v). set_key k v) (p # vs) base)
        = map_of (set_key k v base) ++ map_of (rev vs)"
    by (simp add: p Cons.IH)
  also have "\<dots> = (map_of base ++ [k \<mapsto> v]) ++ map_of (rev vs)"
    by (simp add: map_of_set_key)
  also have "\<dots> = map_of base ++ map_of (rev (p # vs))"
    by (simp add: p map_add_assoc map_add_upd_left) 
  finally show ?case .
qed

lemma distinct_fold_set_key:
  "distinct (map fst base) \<Longrightarrow> distinct (map fst (fold (\<lambda>(k, v). set_key k v) value base))"
  by (induction "value" arbitrary: base) (auto simp: distinct_set_key)

lemma get_key_field: "get_key kvs k = field (map_of kvs) k"
  by (simp add: get_key_def field_def)

lemma base_map:
  "map_of [(''cps'', a), (''cycle'', b), (''delta'', c)]
   = [''cps'' \<mapsto> a, ''cycle'' \<mapsto> b, ''delta'' \<mapsto> c]"
  by (auto simp: fun_eq_iff)

lemma field_upd: "field (m(k \<mapsto> v)) k' = (if k' = k then v else field m k')"
  by (simp add: field_def)

lemma hap_controls_map:
  assumes "hap_controls N isNote noteToMidi hap cps = Inr C"
  shows "map_of C = expected_controls N isNote noteToMidi hap cps \<and> distinct (map fst C)"
proof -
  define c0 where "c0 = fold (\<lambda>(k, v). set_key k v)
       (case hap_value hap of None \<Rightarrow> [] | Some kvs \<Rightarrow> kvs)
       [(''cps'', CNum cps),
        (''cycle'', CNum (case hap_begin hap of None \<Rightarrow> num_lit N 0 | Some b \<Rightarrow> b)),
        (''delta'', CNum (num_div N (case hap_duration hap of None \<Rightarrow> num_lit N 1 | Some d \<Rightarrow> d) cps))]"
  define m where "m = merged N hap cps"
  have c0: "map_of c0 = m"
    unfolding c0_def m_def merged_def map_of_fold_set_key base_map ..
  define oct where "oct = (if truthy_c N (field m ''octave'') then field m ''octave''
                    else CNum (num_lit N 3))"
  define r1 where "r1 = (if field m ''note'' \<noteq> CUndefined then
                 if isNote (field m ''note'') then
                   (case noteToMidi (field m ''note'') oct of
                      None \<Rightarrow> Inl OtherError
                    | Some mm \<Rightarrow> Inr (set_key ''midinote'' (CNum mm) c0))
                 else if is_numeric (field m ''note'') then Inr (set_key ''midinote'' (field m ''note'') c0)
                 else Inr c0
               else Inr c0)"
  define m1 where "m1 = (if field m ''note'' \<noteq> CUndefined \<and> isNote (field m ''note'')
                  then m(''midinote'' := map_option CNum (noteToMidi (field m ''note'') oct))
                else if is_numeric (field m ''note'') then m(''midinote'' \<mapsto> field m ''note'')
                else m)"
  have d0: "distinct (map fst c0)"
    unfolding c0_def by (rule distinct_fold_set_key) simp
  from assms obtain c1 where c1: "r1 = Inr c1"
    unfolding hap_controls_def r1_def oct_def c0_def[symmetric] get_key_field c0 Let_def
    by (auto split: sum.splits)
  have undef: "is_numeric (field m ''note'') \<Longrightarrow> field m ''note'' \<noteq> CUndefined"
    by (cases "field m ''note''") auto
  have mc1: "map_of c1 = m1"
    using c1 undef c0 unfolding r1_def m1_def
    by (auto simp: map_of_set_key split: if_splits option.splits)
  have d1: "distinct (map fst c1)"
    using c1 d0 unfolding r1_def
    by (auto simp: distinct_set_key split: if_splits option.splits)
  have rd1: "\<And>k. k \<noteq> ''midinote'' \<Longrightarrow> field m1 k = field m k"
    unfolding m1_def by (auto simp: field_def)
  define c2 where "c2 = (if truthy_c N (field m ''bank'') \<and> truthy_c N (field m ''s'')
                     then set_key ''s'' (js_plus N (field m ''bank'') (field m ''s'')) c1
                     else c1)"
  define m2 where "m2 = (if truthy_c N (field m ''bank'') \<and> truthy_c N (field m ''s'')
                  then m1(''s'' \<mapsto> js_plus N (field m ''bank'') (field m ''s''))
                else m1)"
  have mc2: "map_of c2 = m2" unfolding c2_def m2_def by (simp add: map_of_set_key mc1)
  have rd2: "\<And>k. k \<noteq> ''midinote'' \<Longrightarrow> k \<noteq> ''s'' \<Longrightarrow> field m2 k = field m k"
    unfolding m2_def using rd1 by (auto simp: field_upd)
  define c3 where "c3 = (if truthy_c N (field m ''roomsize'')
                     then set_key ''size'' (field m ''roomsize'') c2 else c2)"
  define m3 where "m3 = (if truthy_c N (field m ''roomsize'')
                     then m2(''size'' \<mapsto> field m ''roomsize'') else m2)"
  have mc3: "map_of c3 = m3" unfolding c3_def m3_def by (simp add: map_of_set_key mc2)
  have rd3: "\<And>k. k \<noteq> ''midinote'' \<Longrightarrow> k \<noteq> ''s'' \<Longrightarrow> k \<noteq> ''size'' \<Longrightarrow> field m3 k = field m k"
    unfolding m3_def using rd2 by (auto simp: field_upd)
  define c4 where "c4 = (if field m ''unit'' = CStr ''c'' \<and> not_nullish (field m ''speed'')
                     then set_key ''speed'' (CNum (num_div N (to_number N (field m ''speed'')) cps)) c3
                     else c3)"
  have mc4: "map_of c4 = expected_controls N isNote noteToMidi hap cps"
    unfolding c4_def expected_controls_def Let_def
      m_def[symmetric] oct_def[symmetric] m1_def[symmetric] m2_def[symmetric] m3_def[symmetric]
    by (simp add: map_of_set_key mc3)
  have g1: "get_key c1 ''bank'' = field m ''bank''" "get_key c1 ''s'' = field m ''s''"
    by (simp_all add: get_key_field mc1 rd1)
  have g2: "get_key c2 ''roomsize'' = field m ''roomsize''"
    by (simp add: get_key_field mc2 rd2)
  have g3: "get_key c3 ''unit'' = field m ''unit''" "get_key c3 ''speed'' = field m ''speed''"
    by (simp_all add: get_key_field mc3 rd3)
  have g0: "get_key c0 ''note'' = field m ''note''" "get_key c0 ''octave'' = field m ''octave''"
    by (simp_all add: get_key_field c0)
  have "hap_controls N isNote noteToMidi hap cps =
          (case r1 of Inl e \<Rightarrow> Inl e | Inr controls1 \<Rightarrow>
             (let controls2 =
                    (if truthy_c N (get_key controls1 ''bank'') \<and> truthy_c N (get_key controls1 ''s'')
                     then set_key ''s''
                            (js_plus N (get_key controls1 ''bank'') (get_key controls1 ''s''))
                            controls1
                     else controls1);
                  controls3 =
                    (if truthy_c N (get_key controls2 ''roomsize'')
                     then set_key ''size'' (get_key controls2 ''roomsize'') controls2
                     else controls2);
                  controls4 =
                    (if get_key controls3 ''unit'' = CStr ''c''
                        \<and> not_nullish (get_key controls3 ''speed'')
                     then set_key ''speed''
                            (CNum (num_div N (to_number N (get_key controls3 ''speed'')) cps))
                            controls3
                     else controls3)
              in Inr controls4))"
    unfolding hap_controls_def Let_def c0_def[symmetric] g0 oct_def[symmetric] r1_def[symmetric] ..
  also have "\<dots> = Inr c4"
    unfolding c1 sum.case Let_def g1 c2_def[symmetric] g2 c3_def[symmetric] g3 c4_def[symmetric] ..
  finally have "hap_controls N isNote noteToMidi hap cps = Inr c4" .
  moreover have "distinct (map fst c4)"
    unfolding c4_def c3_def c2_def using d1 by (simp add: distinct_set_key)
  ultimately show ?thesis using assms mc4 by simp
qed

lemma arg_pairs_flatten_absent:
  "k \<notin> fst ` set kvs \<Longrightarrow> map_of (arg_pairs (flatten N kvs)) k = None"
  by (induction N kvs rule: flatten.induct) (auto split: cval.splits)

lemma arg_pairs_flatten:
  "distinct (map fst kvs) \<Longrightarrow> map_of (arg_pairs (flatten N kvs)) k = sent_as N (map_of kvs k)"
proof (induction N kvs rule: flatten.induct)
  case (1 N)
  show ?case by (simp add: sent_as_def)
next
  case (2 N key val kvs)
  then have IH: "map_of (arg_pairs (flatten N kvs)) k = sent_as N (map_of kvs k)"
    and nk: "key \<notin> fst ` set kvs" by auto
  show ?case
  proof (cases "k = key")
    case True
    with nk have "map_of (arg_pairs (flatten N kvs)) k = None"
      by (simp add: arg_pairs_flatten_absent)
    with True show ?thesis by (cases val) (simp_all add: sent_as_def)
  next
    case False
    with IH show ?thesis by (cases val) simp_all
  qed
qed


text \<open>
  Claim C4, as the specification states it, has the datagram carry the tempo as \<open>cps\<close>
  and a \<open>midinote\<close> whenever the event has a \<open>note\<close>. The event's own controls are
  spread over the transport fields, so an event with a \<open>cps\<close> of 2 played at a tempo of
  1/2 is sent with \<open>cps\<close> 2; and \<open>midinote\<close> is set only for a note name or a number,
  so the note \<open>x\<close> gives none.
\<close>

theorem hapToOscArgs_event_fields_win:
  "hapToOscArgs rat_numbers isNote_examples noteToMidi_examples hap_override (1 / 2)
     = Inr [ArgS ''cps'', ArgF 2, ArgS ''cycle'', ArgF 0, ArgS ''delta'', ArgF 2,
            ArgS ''s'', ArgS ''bd'', ArgS ''note'', ArgS ''x'']
   \<and> map_of (arg_pairs [ArgS ''cps'', ArgF 2, ArgS ''cycle'', ArgF 0, ArgS ''delta'', ArgF 2,
            ArgS ''s'', ArgS ''bd'', ArgS ''note'', ArgS ''x'']) ''cps'' = Some (ArgF (2 :: rat))
   \<and> map_of (arg_pairs [ArgS ''cps'', ArgF 2, ArgS ''cycle'', ArgF 0, ArgS ''delta'', ArgF 2,
            ArgS ''s'', ArgS ''bd'', ArgS ''note'', ArgS ''x'']) ''note'' = Some (ArgS ''x'' :: rat osc_arg)
   \<and> map_of (arg_pairs [ArgS ''cps'', ArgF 2, ArgS ''cycle'', ArgF 0, ArgS ''delta'', ArgF 2,
            ArgS ''s'', ArgS ''bd'', ArgS ''note'', ArgS ''x'']) ''midinote'' = (None :: rat osc_arg option)"
  by (simp add: hapToOscArgs_def hap_controls_def hap_override_def rat_numbers_def
      isNote_examples_def noteToMidi_examples_def get_key_def js_plus_def Let_def)

text \<open>
  Claim C4, amended: whenever \<open>hapToOscArgs\<close> returns, every key of the datagram
  carries the value of \<open>expected_controls\<close>, and no other key is sent. That is: the
  event's controls, over \<open>cps\<close>, \<open>cycle\<close> = begin (0 when there is none) and
  \<open>delta\<close> = duration / cps (duration 1 when there is none), a key of the event taking
  precedence over the transport field of the same name; \<open>midinote\<close> set to
  \<open>noteToMidi(note, octave || 3)\<close> when \<open>note\<close> is a note name and to \<open>note\<close> when
  it is a number, and left alone otherwise; \<open>s\<close> replaced by \<open>bank + s\<close> when both are
  truthy; \<open>size\<close> set to \<open>roomsize\<close> when that is truthy; \<open>speed\<close> divided by
  \<open>cps\<close> when \<open>unit\<close> is \<open>'c'\<close> and \<open>speed\<close> is neither \<open>null\<close> nor
  \<open>undefined\<close>. Entries that are \<open>null\<close> or \<open>undefined\<close> are not sent, a number is
  sent as a float and anything else as a string.
\<close>

theorem hapToOscArgs_controls:
  assumes "hapToOscArgs N isNote noteToMidi hap cps = Inr a"
  shows "map_of (arg_pairs a) k = sent_as N (expected_controls N isNote noteToMidi hap cps k)"
proof -
  from assms obtain C where C: "hap_controls N isNote noteToMidi hap cps = Inr C"
    and a: "a = flatten N C"
    by (auto simp: hapToOscArgs_def split: sum.splits)
  show ?thesis
    unfolding a using arg_pairs_flatten[of C N k] hap_controls_map[OF C]
    by simp
qed


theorem hapToOscArgs_controls_witness:
  "hapToOscArgs rat_numbers isNote_examples noteToMidi_examples hap_example (1 / 2)
     = Inr [ArgS ''cps'', ArgF (1 / 2), ArgS ''cycle'', ArgF (3 / 2), ArgS ''delta'', ArgF (1 / 2),
            ArgS ''s'', ArgS ''RolandTR909sd'', ArgS ''bank'', ArgS ''RolandTR909'',
            ArgS ''note'', ArgS ''e'', ArgS ''unit'', ArgS ''c'', ArgS ''speed'', ArgF 4,
            ArgS ''midinote'', ArgF 52]
   \<and> sent_as rat_numbers
        (expected_controls rat_numbers isNote_examples noteToMidi_examples hap_example (1 / 2)
           ''speed'') = Some (ArgF 4)
   \<and> sent_as rat_numbers
        (expected_controls rat_numbers isNote_examples noteToMidi_examples hap_example (1 / 2)
           ''midinote'') = Some (ArgF 52)
   \<and> sent_as rat_numbers
        (expected_controls rat_numbers isNote_examples noteToMidi_examples hap_example (1 / 2)
           ''s'') = Some (ArgS ''RolandTR909sd'')
   \<and> sent_as rat_numbers
        (expected_controls rat_numbers isNote_examples noteToMidi_examples hap_example (1 / 2)
           ''delta'') = Some (ArgF (1 / 2))"
proof -
  have run: "hapToOscArgs rat_numbers isNote_examples noteToMidi_examples hap_example (1 / 2)
     = Inr [ArgS ''cps'', ArgF (1 / 2), ArgS ''cycle'', ArgF (3 / 2), ArgS ''delta'', ArgF (1 / 2),
            ArgS ''s'', ArgS ''RolandTR909sd'', ArgS ''bank'', ArgS ''RolandTR909'',
            ArgS ''note'', ArgS ''e'', ArgS ''unit'', ArgS ''c'', ArgS ''speed'', ArgF 4,
            ArgS ''midinote'', ArgF 52]"
    by (simp add: hapToOscArgs_def hap_controls_def hap_example_def rat_numbers_def
        isNote_examples_def noteToMidi_examples_def get_key_def js_plus_def Let_def)
  from hapToOscArgs_controls[OF run, of "''speed''"] hapToOscArgs_controls[OF run, of "''midinote''"]
    hapToOscArgs_controls[OF run, of "''s''"] hapToOscArgs_controls[OF run, of "''delta''"] run
  show ?thesis by simp
qed

subsection \<open>Sending\<close>







section \<open>Properties of the supervisor\<close>

lemma fold_over_concat: "fold f (concat xss) S = fold (\<lambda>xs. fold f xs) xss S"
  by (induction xss arbitrary: S) simp_all

lemma stdout_run_lines:
  "stdout_run has chunks = fold (on_stdout_line has) (concat chunks) supervisor_init"
proof -
  have "on_stdout has = (\<lambda>data. fold (on_stdout_line has) data)"
    by (simp add: fun_eq_iff on_stdout_def)
  then show ?thesis by (simp add: stdout_run_def fold_over_concat)
qed

lemma on_stdout_line_effect:
  "debug_sink (on_stdout_line has l S)
     = debug_sink S @ (if l \<noteq> [] then [''[server] '' @ l] else [])"
  "started (on_stdout_line has l S) = (started S \<or> ready_line l)"
  "scheduled (on_stdout_line has l S)
     = scheduled S + (if has \<and> \<not> started S \<and> ready_line l then 1 else 0)"
  by (auto simp: on_stdout_line_def ready_line_def Let_def)

lemma fold_lines_debug:
  "debug_sink (fold (on_stdout_line has) ls S)
     = debug_sink S @ map ((@) ''[server] '') (filter (\<lambda>l. l \<noteq> []) ls)"
  by (induction ls arbitrary: S) (simp_all add: on_stdout_line_effect)

lemma fold_lines_started:
  "started (fold (on_stdout_line has) ls S) = (started S \<or> (\<exists>l \<in> set ls. ready_line l))"
  by (induction ls arbitrary: S) (auto simp: on_stdout_line_effect)

lemma fold_lines_scheduled:
  "scheduled (fold (on_stdout_line has) ls S)
     = scheduled S + (if has \<and> \<not> started S \<and> (\<exists>l \<in> set ls. ready_line l) then 1 else 0)"
proof (induction ls arbitrary: S)
  case Nil
  show ?case by simp
next
  case (Cons l ls)
  have "scheduled (fold (on_stdout_line has) (l # ls) S)
        = scheduled (on_stdout_line has l S)
          + (if has \<and> \<not> started (on_stdout_line has l S) \<and> (\<exists>x \<in> set ls. ready_line x)
             then 1 else 0)"
    by (simp add: Cons.IH)
  also have "\<dots> = scheduled S
       + (if has \<and> \<not> started S \<and> (\<exists>x \<in> set (l # ls). ready_line x) then 1 else 0)"
    by (simp add: on_stdout_line_effect)
  finally show ?case .
qed


text \<open>
  The handler is one-shot over the items of \<open>data\<close>: whatever items it is
  called with, in whatever calls, \<open>on_start\<close> is scheduled once if some non-empty item contains
  \<open>listening on\<close> (and the caller gave a callback) and never otherwise; it has not
  been scheduled before the first such item and it has been right after it. Every
  non-empty item is passed to \<open>M.debug\<close>, in order.
\<close>

lemma on_start_scheduled_once:
  "scheduled (stdout_run has chunks)
     = (if has \<and> (\<exists>line \<in> set (concat chunks). ready_line line) then 1 else 0)
 \<and> debug_sink (stdout_run has chunks)
     = map ((@) ''[server] '') (filter (\<lambda>line. line \<noteq> []) (concat chunks))
 \<and> (\<forall>pre line post. concat chunks = pre @ line # post \<and> ready_line line
        \<and> (\<forall>l \<in> set pre. \<not> ready_line l) \<longrightarrow>
      scheduled (fold (on_stdout_line has) pre supervisor_init) = 0
    \<and> scheduled (fold (on_stdout_line has) (pre @ [line]) supervisor_init)
        = (if has then 1 else 0))"
proof (intro conjI allI impI)
  show "scheduled (stdout_run has chunks)
     = (if has \<and> (\<exists>line \<in> set (concat chunks). ready_line line) then 1 else 0)"
    unfolding stdout_run_lines fold_lines_scheduled by (simp add: supervisor_init_def)
next
  show "debug_sink (stdout_run has chunks)
     = map ((@) ''[server] '') (filter (\<lambda>line. line \<noteq> []) (concat chunks))"
    unfolding stdout_run_lines fold_lines_debug by (simp add: supervisor_init_def)
next
  fix pre line post
  assume a: "concat chunks = pre @ line # post \<and> ready_line line
        \<and> (\<forall>l \<in> set pre. \<not> ready_line l)"
  then show "scheduled (fold (on_stdout_line has) pre supervisor_init) = 0"
    unfolding fold_lines_scheduled by (simp add: supervisor_init_def)
next
  fix pre line post
  assume a: "concat chunks = pre @ line # post \<and> ready_line line
        \<and> (\<forall>l \<in> set pre. \<not> ready_line l)"
  then show "scheduled (fold (on_stdout_line has) (pre @ [line]) supervisor_init)
        = (if has then 1 else 0)"
    unfolding fold_lines_scheduled by (simp add: supervisor_init_def)
qed


text \<open>
  Claim C8: the readiness callback fires exactly once, on the first non-empty line
  containing the marker. The handler takes every item of \<open>data\<close> for a line and does
  not put together a line that arrives in two reads. When the engine's line
  \<open>Server listening on port 9000\<close> is cut after \<open>listen\<close>, neither part contains
  \<open>listening on\<close>: \<open>on_start\<close> is never scheduled, and \<open>M.debug\<close> gets the two
  parts as two lines. The same output in one read schedules it once. For the items of
  \<open>data\<close> themselves the handler is one-shot, as \<open>on_start_scheduled_once\<close> says.
\<close>

theorem on_stdout_misses_split_line:
  "ready_line ''Server listening on port 9000''
   \<and> channel_lines ''Server listen'' = [''Server listen'']
   \<and> channel_lines (''ing on port 9000'' @ [CHR 0x0A]) = [''ing on port 9000'', []]
   \<and> scheduled (stdout_reads True [''Server listen'', ''ing on port 9000'' @ [CHR 0x0A]]) = 0
   \<and> debug_sink (stdout_reads True [''Server listen'', ''ing on port 9000'' @ [CHR 0x0A]])
       = [''[server] Server listen'', ''[server] ing on port 9000'']
   \<and> scheduled (stdout_reads True [''Server listening on port 9000'' @ [CHR 0x0A]]) = 1
   \<and> debug_sink (stdout_reads True [''Server listening on port 9000'' @ [CHR 0x0A]])
       = [''[server] Server listening on port 9000'']"
  by (simp add: ready_line_def stdout_reads_def stdout_run_def on_stdout_def on_stdout_line_def
      supervisor_init_def Let_def)

end
